theory Spec2Isabelle
  imports Complex_Main
begin

section \<open>JavaScript numbers\<close>

text \<open>
  The program of \<^verbatim>\<open>src/App.tsx\<close> computes with JavaScript numbers, IEEE 754 binary64
  values. A finite value is modelled by the rational number it denotes, so comparison is
  the comparison of rationals and every arithmetic operation rounds its exact result back
  to binary64 (round to nearest, ties to even). The two zeros are identified: the program
  never divides and never prints a sign of zero.
\<close>

datatype number = NaN | PosInfinity | NegInfinity | Fin rat

function bit_length :: "int \<Rightarrow> nat" where
  "bit_length n = (if n \<le> 0 then 0 else Suc (bit_length (n div 2)))"
  by pat_completeness auto
termination
  by (relation "measure nat") auto

declare bit_length.simps [simp del]

definition pow2 :: "int \<Rightarrow> rat" where
  "pow2 e = (if 0 \<le> e then 2 ^ nat e else 1 / 2 ^ nat (- e))"

definition ilog2 :: "rat \<Rightarrow> int" where
  \<comment> \<open>the exponent \<open>e\<close> with \<open>2 ^ e \<le> |x| < 2 ^ (e + 1)\<close>, for \<open>x \<noteq> 0\<close>\<close>
  "ilog2 x = (case quotient_of \<bar>x\<bar> of (p, q) \<Rightarrow>
     (let e = int (bit_length p) - int (bit_length q)
      in if pow2 e \<le> \<bar>x\<bar> then e else e - 1))"

definition roundTiesToEven :: "rat \<Rightarrow> int" where
  "roundTiesToEven y = (let n = \<lfloor>y\<rfloor>; r = y - of_int n
     in if r < 1 / 2 then n else if 1 / 2 < r then n + 1 else if even n then n else n + 1)"

definition roundToDouble :: "rat \<Rightarrow> number" where
  \<comment> \<open>the Number value for a real: the nearest multiple \<open>n * 2 ^ (e - 52)\<close> of the spacing
      at the exponent \<open>e\<close> of \<open>x\<close> (at least \<open>-1022\<close>, below which the spacing stays
      \<open>2 ^ -1074\<close>); a result that reaches \<open>2 ^ 1024\<close> is infinite\<close>
  "roundToDouble x =
     (if x = 0 then Fin 0
      else let e = max (ilog2 x) (- 1022);
               q = pow2 (e - 52);
               n = roundTiesToEven (x / q)
           in if 1023 < e \<or> (e = 1023 \<and> 2 ^ 53 \<le> \<bar>n\<bar>)
              then (if 0 < x then PosInfinity else NegInfinity)
              else Fin (of_int n * q))"

definition lit :: "rat \<Rightarrow> number" where
  \<comment> \<open>a numeric literal of the source text denotes the double nearest to its decimal value\<close>
  "lit q = roundToDouble q"

fun lt :: "number \<Rightarrow> number \<Rightarrow> bool" where
  \<comment> \<open>\<^verbatim>\<open>x < y\<close>: false whenever an operand is NaN\<close>
  "lt NaN _ = False"
| "lt _ NaN = False"
| "lt (Fin a) (Fin b) = (a < b)"
| "lt PosInfinity _ = False"
| "lt _ PosInfinity = True"
| "lt _ NegInfinity = False"
| "lt NegInfinity _ = True"

definition gt :: "number \<Rightarrow> number \<Rightarrow> bool" where
  \<comment> \<open>\<^verbatim>\<open>x > y\<close>\<close>
  "gt x y = lt y x"

definition le :: "number \<Rightarrow> number \<Rightarrow> bool" where
  \<comment> \<open>\<^verbatim>\<open>x <= y\<close>: true when \<^verbatim>\<open>y < x\<close> is false and no operand is NaN\<close>
  "le x y = (x \<noteq> NaN \<and> y \<noteq> NaN \<and> \<not> lt y x)"

definition ge :: "number \<Rightarrow> number \<Rightarrow> bool" where
  \<comment> \<open>\<^verbatim>\<open>x >= y\<close>\<close>
  "ge x y = le y x"

definition strictEquals :: "number \<Rightarrow> number \<Rightarrow> bool" where
  \<comment> \<open>\<^verbatim>\<open>x === y\<close> on numbers: NaN equals nothing\<close>
  "strictEquals x y = (x \<noteq> NaN \<and> y \<noteq> NaN \<and> x = y)"

definition isNaN :: "number \<Rightarrow> bool" where
  "isNaN x = (x = NaN)"

fun negate :: "number \<Rightarrow> number" where
  "negate NaN = NaN"
| "negate PosInfinity = NegInfinity"
| "negate NegInfinity = PosInfinity"
| "negate (Fin a) = Fin (- a)"

fun add :: "number \<Rightarrow> number \<Rightarrow> number" where
  \<comment> \<open>\<^verbatim>\<open>x + y\<close> on numbers\<close>
  "add NaN _ = NaN"
| "add _ NaN = NaN"
| "add (Fin a) (Fin b) = roundToDouble (a + b)"
| "add PosInfinity NegInfinity = NaN"
| "add NegInfinity PosInfinity = NaN"
| "add PosInfinity _ = PosInfinity"
| "add NegInfinity _ = NegInfinity"
| "add (Fin a) y = y"

definition sub :: "number \<Rightarrow> number \<Rightarrow> number" where
  \<comment> \<open>\<^verbatim>\<open>x - y\<close> on numbers\<close>
  "sub x y = add x (negate y)"

section \<open>The tolerance table\<close>

datatype ToleranceClass = Class_f | Class_m | Class_c | Class_v

record ToleranceRange =
  min_mm :: number
  max_mm :: number
  tolerances :: "ToleranceClass \<Rightarrow> number option"

definition row :: "number option \<Rightarrow> number option \<Rightarrow> number option \<Rightarrow> number option
    \<Rightarrow> ToleranceClass \<Rightarrow> number option" where
  \<comment> \<open>the object literal \<^verbatim>\<open>{ f: .., m: .., c: .., v: .. }\<close>; \<^verbatim>\<open>null\<close> is \<open>None\<close>\<close>
  "row tf tm tc tv k = (case k of Class_f \<Rightarrow> tf | Class_m \<Rightarrow> tm | Class_c \<Rightarrow> tc | Class_v \<Rightarrow> tv)"

definition toleranceTable :: "ToleranceRange list" where
  "toleranceTable =
    [\<lparr>min_mm = lit (5 / 10), max_mm = lit 3,
      tolerances = row (Some (lit (5 / 100))) (Some (lit (1 / 10))) (Some (lit (2 / 10))) None\<rparr>,
     \<lparr>min_mm = lit 3, max_mm = lit 6,
      tolerances = row (Some (lit (5 / 100))) (Some (lit (1 / 10))) (Some (lit (3 / 10))) (Some (lit (5 / 10)))\<rparr>,
     \<lparr>min_mm = lit 6, max_mm = lit 30,
      tolerances = row (Some (lit (1 / 10))) (Some (lit (2 / 10))) (Some (lit (5 / 10))) (Some (lit 1))\<rparr>,
     \<lparr>min_mm = lit 30, max_mm = lit 120,
      tolerances = row (Some (lit (15 / 100))) (Some (lit (3 / 10))) (Some (lit (8 / 10))) (Some (lit (15 / 10)))\<rparr>,
     \<lparr>min_mm = lit 120, max_mm = lit 400,
      tolerances = row (Some (lit (2 / 10))) (Some (lit (5 / 10))) (Some (lit (12 / 10))) (Some (lit (25 / 10)))\<rparr>,
     \<lparr>min_mm = lit 400, max_mm = lit 1000,
      tolerances = row (Some (lit (3 / 10))) (Some (lit (8 / 10))) (Some (lit 2)) (Some (lit 4))\<rparr>,
     \<lparr>min_mm = lit 1000, max_mm = lit 2000,
      tolerances = row (Some (lit (5 / 10))) (Some (lit (12 / 10))) (Some (lit 3)) (Some (lit 6))\<rparr>,
     \<lparr>min_mm = lit 2000, max_mm = lit 4000,
      tolerances = row None (Some (lit 2)) (Some (lit 4)) (Some (lit 8))\<rparr>]"

section \<open>The component\<close>

definition isValidDimension :: "number \<Rightarrow> bool" where
  \<comment> \<open>\<^verbatim>\<open>!isNaN(dimension) && dimension >= 0.5 && dimension <= 4000\<close>\<close>
  "isValidDimension dimension =
     (\<not> isNaN dimension \<and> ge dimension (lit (5 / 10)) \<and> le dimension (lit 4000))"

definition inRange :: "number \<Rightarrow> ToleranceRange \<Rightarrow> bool" where
  \<comment> \<open>the callback given to \<^verbatim>\<open>toleranceTable.find\<close>\<close>
  "inRange dimension r =
     (if strictEquals (min_mm r) (lit (5 / 10))
      then ge dimension (lit (5 / 10)) \<and> le dimension (lit 3)
      else gt dimension (min_mm r) \<and> le dimension (max_mm r))"

definition findRange :: "number \<Rightarrow> ToleranceRange option" where
  \<comment> \<open>\<^verbatim>\<open>toleranceTable.find(..)\<close>: the first matching range, \<^verbatim>\<open>undefined\<close> is \<open>None\<close>\<close>
  "findRange dimension = find (inRange dimension) toleranceTable"

definition tolerance :: "number \<Rightarrow> ToleranceClass \<Rightarrow> number option" where
  "tolerance dimension tolClass =
     (if \<not> isValidDimension dimension then None
      else case findRange dimension of
             None \<Rightarrow> None
           | Some range' \<Rightarrow> tolerances range' tolClass)"

definition upperLimit :: "number \<Rightarrow> number option \<Rightarrow> number option" where
  \<comment> \<open>\<^verbatim>\<open>tolerance !== null ? dimension + tolerance : null\<close>\<close>
  "upperLimit dimension tol = (case tol of None \<Rightarrow> None | Some t \<Rightarrow> Some (add dimension t))"

definition lowerLimit :: "number \<Rightarrow> number option \<Rightarrow> number option" where
  \<comment> \<open>\<^verbatim>\<open>tolerance !== null ? dimension - tolerance : null\<close>\<close>
  "lowerLimit dimension tol = (case tol of None \<Rightarrow> None | Some t \<Rightarrow> Some (sub dimension t))"

section \<open>Strings and the library functions the component calls\<close>

text \<open>
  A string is a list of code units; the model covers the code units below 256. The
  functions of this section are those of the language's standard library (ECMA-262) that
  the component calls: \<^verbatim>\<open>parseFloat\<close>, \<^verbatim>\<open>Number.prototype.toFixed\<close>, \<^verbatim>\<open>Number\<close> applied to
  a string, and \<^verbatim>\<open>Number.prototype.toString\<close>.
\<close>

datatype error = RangeError

definition isWhiteSpace :: "char \<Rightarrow> bool" where
  \<comment> \<open>tab, line feed, vertical tab, form feed, carriage return, space, no-break space\<close>
  "isWhiteSpace ch = (ch \<in> set [CHR 0x09, CHR 0x0A, CHR 0x0B, CHR 0x0C, CHR 0x0D, CHR 0x20, CHR 0xA0])"

definition isDigit :: "char \<Rightarrow> bool" where
  "isDigit ch = (ch \<in> set ''0123456789'')"

definition digitValue :: "char \<Rightarrow> int" where
  "digitValue ch = of_char ch - of_char (CHR ''0'')"

definition decimalValue :: "string \<Rightarrow> int" where
  "decimalValue ds = foldl (\<lambda>a ch. 10 * a + digitValue ch) 0 ds"

definition pow10 :: "int \<Rightarrow> rat" where
  "pow10 e = (if 0 \<le> e then 10 ^ nat e else 1 / 10 ^ nat (- e))"

definition exponentPart :: "string \<Rightarrow> int \<times> string" where
  \<comment> \<open>an \<^verbatim>\<open>e\<close> or \<^verbatim>\<open>E\<close>, an optional sign and at least one digit; anything else is no
      exponent and nothing is consumed\<close>
  "exponentPart s =
     (case s of
        [] \<Rightarrow> (0, s)
      | ch # t \<Rightarrow>
          if ch = CHR ''e'' \<or> ch = CHR ''E'' then
            (let (neg, u) = (case t of
                               [] \<Rightarrow> (False, t)
                             | sg # t' \<Rightarrow> if sg = CHR ''-'' then (True, t')
                                          else if sg = CHR ''+'' then (False, t')
                                          else (False, t));
                 ds = takeWhile isDigit u
             in if ds = [] then (0, s)
                else (if neg then - decimalValue ds else decimalValue ds,
                      dropWhile isDigit u))
          else (0, s))"

definition strUnsignedDecimalLiteral :: "string \<Rightarrow> (rat \<times> string) option" where
  \<comment> \<open>the mathematical value of the longest prefix that is digits with an optional
      fraction and exponent (\<^verbatim>\<open>12\<close>, \<^verbatim>\<open>12.\<close>, \<^verbatim>\<open>12.5\<close>, \<^verbatim>\<open>.5\<close>, each with an optional exponent),
      and the rest of the string\<close>
  "strUnsignedDecimalLiteral s =
     (let ip = takeWhile isDigit s;
          r1 = dropWhile isDigit s;
          hasDot = (r1 \<noteq> [] \<and> hd r1 = CHR ''.'');
          fp = (if hasDot then takeWhile isDigit (tl r1) else []);
          r2 = (if hasDot then dropWhile isDigit (tl r1) else r1)
      in if ip = [] \<and> fp = [] then None
         else (let (ex, r3) = exponentPart r2
               in Some (of_int (decimalValue (ip @ fp)) / 10 ^ length fp * pow10 ex, r3)))"

definition strDecimalLiteral :: "string \<Rightarrow> (number \<times> string) option" where
  \<comment> \<open>an optional sign, then \<^verbatim>\<open>Infinity\<close> or an unsigned decimal literal\<close>
  "strDecimalLiteral s =
     (let (neg, u) = (case s of
                        [] \<Rightarrow> (False, s)
                      | sg # t \<Rightarrow> if sg = CHR ''-'' then (True, t)
                                  else if sg = CHR ''+'' then (False, t)
                                  else (False, s))
      in if take 8 u = ''Infinity''
         then Some (if neg then NegInfinity else PosInfinity, drop 8 u)
         else (case strUnsignedDecimalLiteral u of
                 None \<Rightarrow> None
               | Some (mv, rest) \<Rightarrow> Some (roundToDouble (if neg then - mv else mv), rest)))"

definition parseFloat :: "string \<Rightarrow> number" where
  \<comment> \<open>leading white space is skipped, the longest prefix that is a decimal literal is
      converted, whatever follows it is ignored; NaN when there is no such prefix\<close>
  "parseFloat s =
     (case strDecimalLiteral (dropWhile isWhiteSpace s) of
        None \<Rightarrow> NaN
      | Some (n, rest) \<Rightarrow> n)"

definition digitOfRadix :: "nat \<Rightarrow> char \<Rightarrow> nat option" where
  "digitOfRadix radix ch =
     (let c = (of_char ch :: nat);
          d = (if 48 \<le> c \<and> c \<le> 57 then c - 48
               else if 97 \<le> c \<and> c \<le> 102 then c - 87
               else if 65 \<le> c \<and> c \<le> 70 then c - 55
               else radix)
      in if d < radix then Some d else None)"

definition nonDecimalIntegerLiteral :: "string \<Rightarrow> number option" where
  \<comment> \<open>\<^verbatim>\<open>0x\<close>, \<^verbatim>\<open>0o\<close> or \<^verbatim>\<open>0b\<close> (in either case) and at least one digit of that radix\<close>
  "nonDecimalIntegerLiteral s =
     (case s of
        z # p # ds \<Rightarrow>
          (let radix = (if p = CHR ''x'' \<or> p = CHR ''X'' then 16
                        else if p = CHR ''o'' \<or> p = CHR ''O'' then 8
                        else if p = CHR ''b'' \<or> p = CHR ''B'' then 2
                        else (0::nat))
           in if z = CHR ''0'' \<and> radix \<noteq> 0 \<and> ds \<noteq> []
                 \<and> list_all (\<lambda>ch. digitOfRadix radix ch \<noteq> None) ds
              then Some (roundToDouble
                     (of_int (foldl (\<lambda>a ch. int radix * a + int (the (digitOfRadix radix ch)))
                                0 ds)))
              else None)
      | _ \<Rightarrow> None)"

definition trim :: "string \<Rightarrow> string" where
  "trim s = rev (dropWhile isWhiteSpace (rev (dropWhile isWhiteSpace s)))"

definition StringToNumber :: "string \<Rightarrow> number" where
  \<comment> \<open>\<^verbatim>\<open>Number(s)\<close> for a string: the whole trimmed string has to be a numeric literal\<close>
  "StringToNumber s =
     (let t = trim s
      in if t = [] then Fin 0
         else (case nonDecimalIntegerLiteral t of
                 Some n \<Rightarrow> n
               | None \<Rightarrow>
                   (case strDecimalLiteral t of
                      None \<Rightarrow> NaN
                    | Some (n, rest) \<Rightarrow> if rest = [] then n else NaN)))"

function decimal_length :: "int \<Rightarrow> nat" where
  "decimal_length n = (if n \<le> 0 then 0 else Suc (decimal_length (n div 10)))"
  by pat_completeness auto
termination
  by (relation "measure nat") auto

declare decimal_length.simps [simp del]

definition ilog10 :: "rat \<Rightarrow> int" where
  \<comment> \<open>the exponent \<open>e\<close> with \<open>10 ^ e \<le> |x| < 10 ^ (e + 1)\<close>, for \<open>x \<noteq> 0\<close>\<close>
  "ilog10 x = (case quotient_of \<bar>x\<bar> of (p, q) \<Rightarrow>
     (let e = int (decimal_length p) - int (decimal_length q)
      in if pow10 e \<le> \<bar>x\<bar> then e else e - 1))"

function digitsOf :: "int \<Rightarrow> string" where
  \<comment> \<open>the decimal digits of a natural number, \<^verbatim>\<open>0\<close> for zero\<close>
  "digitsOf n = (if n < 10 then [''0123456789'' ! nat n]
                 else digitsOf (n div 10) @ [''0123456789'' ! nat (n mod 10)])"
  by pat_completeness auto
termination
  by (relation "measure nat") auto

declare digitsOf.simps [simp del]

fun shortestDigits :: "rat \<Rightarrow> int \<Rightarrow> nat \<Rightarrow> nat \<Rightarrow> int \<times> int" where
  \<comment> \<open>for a positive double \<open>x\<close> with \<open>10 ^ (n - 1) \<le> x < 10 ^ n\<close>: the least number \<open>k\<close> of
      digits and an integer \<open>s\<close> of \<open>k\<close> digits such that \<open>s * 10 ^ (n - k)\<close> reads back as
      \<open>x\<close>, the nearer to \<open>x\<close> of the two candidates around it and the even one when both
      are equally near; the result is \<open>s\<close> and the position of the decimal point. Seventeen
      digits identify every double, which bounds the search.\<close>
  "shortestDigits x n k 0 = (\<lfloor>x / pow10 (n - int k)\<rfloor>, n)"
| "shortestDigits x n k (Suc fuel) =
     (let sc = pow10 (n - int k);
          lo = \<lfloor>x / sc\<rfloor>;
          hi = lo + 1;
          okLo = (roundToDouble (of_int lo * sc) = Fin x);
          okHi = (roundToDouble (of_int hi * sc) = Fin x);
          dLo = x - of_int lo * sc;
          dHi = of_int hi * sc - x
      in if okLo \<and> (\<not> okHi \<or> dLo < dHi \<or> (dLo = dHi \<and> even lo)) then (lo, n)
         else if okHi then (if hi = 10 ^ k then (10 ^ (k - 1), n + 1) else (hi, n))
         else shortestDigits x n (Suc k) fuel)"

definition formatDigits :: "string \<Rightarrow> int \<Rightarrow> string" where
  \<comment> \<open>the digits \<open>ds\<close> with the decimal point after the first \<open>n\<close> of them\<close>
  "formatDigits ds n =
     (let k = int (length ds)
      in if k \<le> n \<and> n \<le> 21 then ds @ replicate (nat (n - k)) (CHR ''0'')
         else if 0 < n \<and> n \<le> 21 then take (nat n) ds @ ''.'' @ drop (nat n) ds
         else if - 6 < n \<and> n \<le> 0 then ''0.'' @ replicate (nat (- n)) (CHR ''0'') @ ds
         else (let e = n - 1;
                   sg = (if e < 0 then ''-'' else ''+'');
                   ex = digitsOf \<bar>e\<bar>
               in if k = 1 then ds @ ''e'' @ sg @ ex
                  else hd ds # ''.'' @ tl ds @ ''e'' @ sg @ ex))"

definition toStringPositive :: "rat \<Rightarrow> string" where
  "toStringPositive x =
     (case shortestDigits x (ilog10 x + 1) 1 17 of
        (s, n) \<Rightarrow> formatDigits (digitsOf s) n)"

definition toString :: "number \<Rightarrow> string" where
  \<comment> \<open>\<^verbatim>\<open>x.toString()\<close>, radix 10\<close>
  "toString x =
     (case x of
        NaN \<Rightarrow> ''NaN''
      | PosInfinity \<Rightarrow> ''Infinity''
      | NegInfinity \<Rightarrow> ''-Infinity''
      | Fin a \<Rightarrow> if a = 0 then ''0''
                 else if a < 0 then ''-'' @ toStringPositive (- a)
                 else toStringPositive a)"

definition fixedInteger :: "rat \<Rightarrow> nat \<Rightarrow> int" where
  \<comment> \<open>for \<open>0 \<le> a\<close>, the integer \<open>n\<close> for which \<open>n / 10 ^ f - a\<close> is as close to zero as
      possible, the larger one if there are two\<close>
  "fixedInteger a f = \<lfloor>a * 10 ^ f + 1 / 2\<rfloor>"

definition toFixed :: "number \<Rightarrow> int \<Rightarrow> error + string" where
  \<comment> \<open>\<^verbatim>\<open>x.toFixed(fractionDigits)\<close>; throws a RangeError for a digit count outside 0..100\<close>
  "toFixed x fractionDigits =
     (if fractionDigits < 0 \<or> 100 < fractionDigits then Inl RangeError
      else case x of
             Fin a \<Rightarrow>
               (let f = nat fractionDigits;
                    s = (if a < 0 then ''-'' else []);
                    y = \<bar>a\<bar>
                in if 10 ^ 21 \<le> y then Inr (s @ toString (Fin y))
                   else (let m = digitsOf (fixedInteger y f);
                             k = length m;
                             m' = (if k \<le> f then replicate (f + 1 - k) (CHR ''0'') @ m else m);
                             k' = length m'
                         in if f \<noteq> 0
                            then Inr (s @ take (k' - f) m' @ ''.'' @ drop (k' - f) m')
                            else Inr (s @ m)))
           | _ \<Rightarrow> Inr (toString x))"

section \<open>Formatting and the output section\<close>

definition formatNumber :: "number option \<Rightarrow> error + string" where
  \<comment> \<open>\<^verbatim>\<open>num === null ? '-' : Number(num.toFixed(3)).toString()\<close>\<close>
  "formatNumber num =
     (case num of
        None \<Rightarrow> Inr ''-''
      | Some x \<Rightarrow> (case toFixed x 3 of
                     Inl e \<Rightarrow> Inl e
                   | Inr s \<Rightarrow> Inr (toString (StringToNumber s))))"

datatype view = Results string string string | NotSpecifiedMessage | EnterValidDimensionMessage

definition App :: "string \<Rightarrow> ToleranceClass \<Rightarrow> error + view" where
  \<comment> \<open>the output section that the component renders for the state \<open>(dimensionStr, tolClass)\<close>:
      the three formatted numbers (tolerance, upper limit, lower limit; the sign before the
      tolerance is fixed text), or, when \<^verbatim>\<open>tolerance === null\<close>, one of two fixed sentences:
      that no tolerance is specified for these conditions, or that a valid dimension is to
      be entered. A \<^verbatim>\<open>toFixed\<close> that throws would abort rendering.\<close>
  "App dimensionStr tolClass =
     (let dimension = parseFloat dimensionStr;
          tol = tolerance dimension tolClass
      in if tol = None
         then Inr (if isValidDimension dimension then NotSpecifiedMessage
                   else EnterValidDimensionMessage)
         else (case formatNumber tol of
                 Inl e \<Rightarrow> Inl e
               | Inr a \<Rightarrow>
                   (case formatNumber (upperLimit dimension tol) of
                      Inl e \<Rightarrow> Inl e
                    | Inr b \<Rightarrow>
                        (case formatNumber (lowerLimit dimension tol) of
                           Inl e \<Rightarrow> Inl e
                         | Inr c \<Rightarrow> Inr (Results a b c)))))"

section \<open>Rounding to binary64\<close>

text \<open>
  The exponent computed by \<open>ilog2\<close> is the right one, so rounding moves a value by at most
  half the spacing at its exponent: a relative error of at most \<open>2 ^ -53\<close>.
\<close>


lemma pow2_powi: "pow2 e = 2 powi e"
  by (simp add: pow2_def power_int_def inverse_eq_divide power_one_over)

lemma pow2_pos: "0 < pow2 e"
  by (simp add: pow2_powi)

lemma pow2_add: "pow2 (a + b) = pow2 a * pow2 b"
  by (simp add: pow2_powi power_int_add)

lemma pow2_less_iff: "pow2 a < pow2 b \<longleftrightarrow> a < b"
proof
  assume "pow2 a < pow2 b"
  show "a < b"
  proof (rule ccontr)
    assume "\<not> a < b"
    then have "pow2 b \<le> pow2 a"
      by (simp add: pow2_powi power_int_increasing)
    with \<open>pow2 a < pow2 b\<close> show False by simp
  qed
next
  assume "a < b"
  then show "pow2 a < pow2 b"
    by (simp add: pow2_powi power_int_strict_increasing)
qed

lemma pow2_le_iff: "pow2 a \<le> pow2 b \<longleftrightarrow> a \<le> b"
  using pow2_less_iff [of b a] by (simp add: not_less [symmetric])

lemma bit_length_bounds:
  "0 < n \<Longrightarrow> 2 ^ (bit_length n - 1) \<le> n \<and> n < 2 ^ bit_length n"
proof (induction n rule: bit_length.induct)
  case (1 n)
  show ?case
  proof (cases "n = 1")
    case True
    then show ?thesis
      by (simp add: bit_length.simps [of 1] bit_length.simps [of 0])
  next
    case False
    with 1 have pos: "0 < n div 2" by simp
    with 1 have IH: "2 ^ (bit_length (n div 2) - 1) \<le> n div 2" "n div 2 < 2 ^ bit_length (n div 2)"
      by simp_all
    have bl: "bit_length n = Suc (bit_length (n div 2))"
      using 1(2) by (simp add: bit_length.simps [of n])
    have b1: "0 < bit_length (n div 2)"
      using pos by (simp add: bit_length.simps [of "n div 2"])
    then have "(2::int) ^ bit_length (n div 2) = 2 * 2 ^ (bit_length (n div 2) - 1)"
      by (cases "bit_length (n div 2)") simp_all
    with IH show ?thesis
      by (simp add: bl) linarith
  qed
qed

lemma ilog2_bounds:
  assumes "x \<noteq> 0"
  shows "pow2 (ilog2 x) \<le> \<bar>x\<bar> \<and> \<bar>x\<bar> < pow2 (ilog2 x + 1)"
proof -
  obtain p q where pq: "quotient_of \<bar>x\<bar> = (p, q)"
    by (cases "quotient_of \<bar>x\<bar>")
  have q: "0 < q" using pq by (rule quotient_of_denom_pos)
  have x: "\<bar>x\<bar> = of_int p / of_int q" using pq by (rule quotient_of_div)
  have p: "0 < p"
  proof -
    have "0 < \<bar>x\<bar>" using assms by simp
    then have "0 < (of_int p :: rat) / of_int q" by (simp add: x)
    with q show ?thesis by (simp add: zero_less_divide_iff)
  qed
  define a where "a = bit_length p"
  define b where "b = bit_length q"
  have a: "2 ^ (a - 1) \<le> p" "p < 2 ^ a" and b: "2 ^ (b - 1) \<le> q" "q < 2 ^ b"
    using bit_length_bounds [OF p] bit_length_bounds [OF q] by (simp_all add: a_def b_def)
  have a0: "0 < a" and b0: "0 < b"
    using p q by (simp_all add: a_def b_def bit_length.simps [of p] bit_length.simps [of q])
  have ra: "(2::rat) ^ a = 2 * 2 ^ (a - 1)" and rb: "(2::rat) ^ b = 2 * 2 ^ (b - 1)"
    using a0 b0 by (cases a, simp_all) (cases b, simp_all)
  have A: "(2::rat) ^ (a - 1) \<le> of_int p" "(of_int p :: rat) < 2 ^ a"
    and B: "(2::rat) ^ (b - 1) \<le> of_int q" "(of_int q :: rat) < 2 ^ b"
    using a b by (metis of_int_le_iff of_int_numeral of_int_power, 
        metis of_int_less_iff of_int_numeral of_int_power,
        metis of_int_le_iff of_int_numeral of_int_power, 
        metis of_int_less_iff of_int_numeral of_int_power)
  have e: "pow2 (int a - int b) = 2 ^ a / 2 ^ b"
    by (simp add: pow2_powi power_int_diff)
  have up: "\<bar>x\<bar> < pow2 (int a - int b + 1)"
  proof -
    have "of_int p / of_int q < (2::rat) ^ a / 2 ^ (b - 1)"
      using A B q p by (intro frac_less) simp_all
    also have "\<dots> = pow2 (int a - int b + 1)"
      by (simp add: pow2_add e rb) (simp add: pow2_powi)
    finally show ?thesis by (simp add: x)
  qed
  have lo: "pow2 (int a - int b - 1) \<le> \<bar>x\<bar>"
  proof -
    have "(2::rat) ^ (a - 1) / 2 ^ b \<le> of_int p / of_int q"
      using A B q p by (intro frac_le) simp_all
    moreover have "(2::rat) ^ (a - 1) / 2 ^ b = pow2 (int a - int b - 1)"
      using pow2_add [of "int a - int b" "- 1"] by (simp add: e ra) (simp add: pow2_powi)
    ultimately show ?thesis by (simp add: x)
  qed
  show ?thesis
    using up lo by (auto simp add: ilog2_def pq Let_def a_def b_def)
qed

lemma roundTiesToEven_error: "\<bar>of_int (roundTiesToEven y) - y\<bar> \<le> 1 / 2"
proof -
  have "of_int \<lfloor>y\<rfloor> \<le> y" "y < of_int \<lfloor>y\<rfloor> + 1"
    by linarith+
  then show ?thesis
    unfolding roundTiesToEven_def Let_def
    by (simp add: abs_le_iff)
qed


lemma roundToDouble_error:
  assumes "pow2 (- 1022) \<le> \<bar>x\<bar>" "\<bar>x\<bar> < pow2 1023"
  shows "\<exists>r. roundToDouble x = Fin r \<and> \<bar>r - x\<bar> \<le> \<bar>x\<bar> / 2 ^ 53"
proof -
  have x0: "x \<noteq> 0"
    using assms(1) pow2_pos [of "- 1022"] by auto
  define e where "e = ilog2 x"
  have eb: "pow2 e \<le> \<bar>x\<bar>" "\<bar>x\<bar> < pow2 (e + 1)"
    using ilog2_bounds [OF x0] by (simp_all add: e_def)
  have "pow2 (- 1022) < pow2 (e + 1)"
    using assms(1) eb(2) by linarith
  then have e1: "- 1022 \<le> e"
    by (simp add: pow2_less_iff)
  have "pow2 e < pow2 1023"
    using assms(2) eb(1) by linarith
  then have e2: "e < 1023"
    by (simp add: pow2_less_iff)
  define q where "q = pow2 (e - 52)"
  define n where "n = roundTiesToEven (x / q)"
  have q0: "0 < q"
    by (simp add: q_def pow2_pos)
  have rd: "roundToDouble x = Fin (of_int n * q)"
    using x0 e1 e2 by (simp add: roundToDouble_def Let_def e_def [symmetric] max_def
        q_def [symmetric] n_def [symmetric])
  have "\<bar>of_int n * q - x\<bar> = q * \<bar>of_int n - x / q\<bar>"
  proof -
    have "of_int n * q - x = q * (of_int n - x / q)"
      using q0 by (simp add: field_simps)
    then show ?thesis
      using q0 by (simp add: abs_mult)
  qed
  also have "\<dots> \<le> q * (1 / 2)"
    using q0 roundTiesToEven_error [of "x / q"] by (simp add: n_def)
  also have "q * (1 / 2) = pow2 e / 2 ^ 53"
    using pow2_add [of e "- 53"] pow2_add [of e "- 52"]
    by (simp add: q_def) (simp add: pow2_def)
  also have "\<dots> \<le> \<bar>x\<bar> / 2 ^ 53"
    using eb(1) by (simp add: divide_right_mono)
  finally show ?thesis
    using rd by blast
qed

lemma roundToDouble_near:
  assumes "1 / 4 \<le> x" "x \<le> 8192"
  shows "\<exists>r. roundToDouble x = Fin r \<and> \<bar>r - x\<bar> \<le> 1 / 2 ^ 40"
proof -
  have "pow2 (- 1022) \<le> pow2 (- 2)" "pow2 13 < pow2 1023"
    by (simp_all add: pow2_le_iff pow2_less_iff)
  moreover have "pow2 (- 2) = 1 / 4" "pow2 13 = 8192"
    by (simp_all add: pow2_def)
  ultimately have "pow2 (- 1022) \<le> \<bar>x\<bar>" "\<bar>x\<bar> < pow2 1023"
    using assms by linarith+
  then obtain r where r: "roundToDouble x = Fin r" "\<bar>r - x\<bar> \<le> \<bar>x\<bar> / 2 ^ 53"
    using roundToDouble_error by blast
  have "\<bar>x\<bar> / 2 ^ 53 \<le> 8192 / 2 ^ 53"
    using assms by (simp add: divide_right_mono)
  also have "(8192::rat) / 2 ^ 53 = 1 / 2 ^ 40"
    by simp
  finally show ?thesis
    using r by (meson order_trans)
qed

text \<open>
  The test for an infinite result in \<open>roundToDouble\<close> looks at the exponent and the integer
  \<open>n\<close> only; it holds exactly when the rounded value reaches \<open>2 ^ 1024\<close>.
\<close>


lemma roundTiesToEven_abs_le:
  assumes "\<bar>y\<bar> \<le> of_int N"
  shows "\<bar>roundTiesToEven y\<bar> \<le> N"
proof -
  have "\<bar>(of_int (roundTiesToEven y) :: rat)\<bar> \<le> of_int N + 1 / 2"
    using roundTiesToEven_error [of y] assms by linarith
  then have "(of_int \<bar>roundTiesToEven y\<bar> :: rat) < of_int (N + 1)"
    by simp
  then have "\<bar>roundTiesToEven y\<bar> < N + 1"
    by (simp only: of_int_less_iff)
  then show ?thesis
    by simp
qed

lemma roundTiesToEven_abs_ge:
  assumes "of_int N \<le> \<bar>y\<bar>"
  shows "N \<le> \<bar>roundTiesToEven y\<bar>"
proof -
  have "of_int N - 1 / 2 \<le> \<bar>(of_int (roundTiesToEven y) :: rat)\<bar>"
    using roundTiesToEven_error [of y] assms by linarith
  then have "(of_int (N - 1) :: rat) < of_int \<bar>roundTiesToEven y\<bar>"
    by simp
  then have "N - 1 < \<bar>roundTiesToEven y\<bar>"
    by (simp only: of_int_less_iff)
  then show ?thesis
    by simp
qed

lemma roundToDouble_overflow:
  assumes "x \<noteq> 0"
  defines "e \<equiv> max (ilog2 x) (- 1022)"
  defines "n \<equiv> roundTiesToEven (x / pow2 (e - 52))"
  shows "(1023 < e \<or> (e = 1023 \<and> 2 ^ 53 \<le> \<bar>n\<bar>)) = (pow2 1024 \<le> \<bar>of_int n * pow2 (e - 52)\<bar>)"
proof -
  define q where "q = pow2 (e - 52)"
  have q0: "0 < q"
    by (simp add: q_def pow2_pos)
  have xb: "pow2 (ilog2 x) \<le> \<bar>x\<bar>" "\<bar>x\<bar> < pow2 (ilog2 x + 1)"
    using ilog2_bounds [OF assms(1)] by simp_all
  have p: "pow2 53 = 2 ^ 53" "pow2 52 = 2 ^ 52"
    by (simp_all add: pow2_def)
  have "pow2 (e - 52 + 53) = q * pow2 53" "pow2 (e - 52 + 52) = q * pow2 52"
    by (simp_all only: pow2_add q_def)
  then have q53: "q * 2 ^ 53 = pow2 (e + 1)" and q52: "q * 2 ^ 52 = pow2 e"
    by (simp_all add: p add.commute)
  have "pow2 (ilog2 x + 1) \<le> pow2 (e + 1)"
    by (simp add: pow2_le_iff e_def)
  with xb(2) have "\<bar>x\<bar> < q * 2 ^ 53"
    by (metis q53 less_le_trans)
  then have "\<bar>x / q\<bar> \<le> of_int (2 ^ 53)"
    using q0 by (simp add: abs_divide pos_divide_le_eq mult.commute)
  then have n_le: "\<bar>n\<bar> \<le> 2 ^ 53"
    unfolding n_def q_def [symmetric] by (rule roundTiesToEven_abs_le)
  have absnq: "\<bar>of_int n * q\<bar> = of_int \<bar>n\<bar> * q"
    using q0 by (simp add: abs_mult)
  have i53: "(of_int (2 ^ 53) :: rat) = 2 ^ 53" and i52: "(of_int (2 ^ 52) :: rat) = 2 ^ 52"
    by simp_all
  have cmp53: "((2::rat) ^ 53 \<le> of_int \<bar>n\<bar>) = (2 ^ 53 \<le> \<bar>n\<bar>)"
    by (simp only: i53 [symmetric] of_int_le_iff)
  have test: "(pow2 1024 \<le> \<bar>of_int n * pow2 (e - 52)\<bar>) = (pow2 1024 \<le> of_int \<bar>n\<bar> * q)"
    by (simp only: q_def [symmetric] absnq)
  consider "e < 1023" | "e = 1023" | "1023 < e"
    by linarith
  then show ?thesis
  proof cases
    case 1
    have "(of_int \<bar>n\<bar> :: rat) \<le> of_int (2 ^ 53)"
      using n_le by (simp only: of_int_le_iff)
    then have "of_int \<bar>n\<bar> * q \<le> 2 ^ 53 * q"
      using q0 by (simp only: i53 mult_le_cancel_right_pos)
    also have "2 ^ 53 * q = pow2 (e + 1)"
      using q53 by (simp only: mult.commute)
    also have "pow2 (e + 1) < pow2 1024"
      using 1 by (simp add: pow2_less_iff)
    finally have "\<not> pow2 1024 \<le> of_int \<bar>n\<bar> * q"
      by (simp only: not_le)
    then have rhs: "(pow2 1024 \<le> \<bar>of_int n * pow2 (e - 52)\<bar>) = False"
      by (simp only: test)
    have lhs: "(1023 < e \<or> (e = 1023 \<and> 2 ^ 53 \<le> \<bar>n\<bar>)) = False"
      using 1 by simp
    show ?thesis
      by (simp only: lhs rhs)
  next
    case 2
    have "pow2 (e + 1) = pow2 1024"
      using 2 by simp
    then have "pow2 1024 = 2 ^ 53 * q"
      using q53 by (simp only: mult.commute)
    then have "(pow2 1024 \<le> of_int \<bar>n\<bar> * q) = ((2::rat) ^ 53 \<le> of_int \<bar>n\<bar>)"
      using q0 by (simp only: mult_le_cancel_right_pos)
    then have rhs: "(pow2 1024 \<le> \<bar>of_int n * pow2 (e - 52)\<bar>) = (2 ^ 53 \<le> \<bar>n\<bar>)"
      by (simp only: test cmp53)
    have lhs: "(1023 < e \<or> (e = 1023 \<and> 2 ^ 53 \<le> \<bar>n\<bar>)) = (2 ^ 53 \<le> \<bar>n\<bar>)"
      using 2 by simp
    show ?thesis
      by (simp only: lhs rhs)
  next
    case 3
    then have e: "e = ilog2 x"
      by (simp add: e_def max_def split: if_splits)
    have "q * 2 ^ 52 \<le> \<bar>x\<bar>"
      using xb(1) by (simp only: q52 e [symmetric])
    then have "of_int (2 ^ 52) \<le> \<bar>x / q\<bar>"
      using q0 by (simp add: abs_divide pos_le_divide_eq mult.commute)
    then have "2 ^ 52 \<le> \<bar>n\<bar>"
      unfolding n_def q_def [symmetric] by (rule roundTiesToEven_abs_ge)
    then have "(of_int (2 ^ 52) :: rat) \<le> of_int \<bar>n\<bar>"
      by (simp only: of_int_le_iff)
    then have "2 ^ 52 * q \<le> of_int \<bar>n\<bar> * q"
      using q0 by (simp only: i52 mult_le_cancel_right_pos)
    moreover have "2 ^ 52 * q = pow2 e"
      using q52 by (simp only: mult.commute)
    moreover have "pow2 1024 \<le> pow2 e"
      using 3 by (simp add: pow2_le_iff)
    ultimately have "pow2 1024 \<le> of_int \<bar>n\<bar> * q"
      by (simp only:)
    then have rhs: "(pow2 1024 \<le> \<bar>of_int n * pow2 (e - 52)\<bar>) = True"
      by (simp only: test)
    have lhs: "(1023 < e \<or> (e = 1023 \<and> 2 ^ 53 \<le> \<bar>n\<bar>)) = True"
      using 3 by simp
    show ?thesis
      by (simp only: lhs rhs)
  qed
qed


lemma roundToDouble_spec:
  "roundToDouble x =
     (if x = 0 then Fin 0
      else let e = max (ilog2 x) (- 1022);
               r = of_int (roundTiesToEven (x / pow2 (e - 52))) * pow2 (e - 52)
           in if pow2 1024 \<le> \<bar>r\<bar> then (if 0 < x then PosInfinity else NegInfinity)
              else Fin r)"
proof (cases "x = 0")
  case True
  then show ?thesis
    by (simp add: roundToDouble_def)
next
  case False
  show ?thesis
    unfolding roundToDouble_def Let_def
    by (simp only: roundToDouble_overflow [OF False])
qed

section \<open>Validation and the buckets of the table\<close>

text \<open>
  The bounds of the table are doubles themselves, so a validated dimension is a finite
  number between 0.5 and 4000 and the lookup is decided by comparisons of rationals.
\<close>


lemma lit_bounds:
  "lit (1 / 2) = Fin (1 / 2)" "lit 3 = Fin 3" "lit 6 = Fin 6" "lit 30 = Fin 30"
  "lit 120 = Fin 120" "lit 400 = Fin 400" "lit 1000 = Fin 1000" "lit 2000 = Fin 2000"
  "lit 4000 = Fin 4000"
  by code_simp+

lemma isValidDimension_iff:
  "isValidDimension d \<longleftrightarrow> (\<exists>x. d = Fin x \<and> 1 / 2 \<le> x \<and> x \<le> 4000)"
  by (cases d) (auto simp: isValidDimension_def isNaN_def ge_def le_def lit_bounds)

lemma isValidDimension_Fin: "isValidDimension (Fin x) = (1 / 2 \<le> x \<and> x \<le> 4000)"
  by (simp add: isValidDimension_iff)

lemma inRange_first:
  "inRange (Fin x) \<lparr>min_mm = Fin (1 / 2), max_mm = hi, tolerances = t\<rparr> = (1 / 2 \<le> x \<and> x \<le> 3)"
  by (auto simp add: inRange_def strictEquals_def ge_def le_def lit_bounds)

lemma inRange_later:
  "lo \<noteq> 1 / 2 \<Longrightarrow>
   inRange (Fin x) \<lparr>min_mm = Fin lo, max_mm = Fin hi, tolerances = t\<rparr> = (lo < x \<and> x \<le> hi)"
  by (auto simp add: inRange_def strictEquals_def gt_def le_def lit_bounds)

lemma findRange_0: "1 / 2 \<le> x \<Longrightarrow> x \<le> 3 \<Longrightarrow> findRange (Fin x) = Some (toleranceTable ! 0)"
  by (simp add: findRange_def toleranceTable_def inRange_first lit_bounds)

lemma findRange_1: "3 < x \<Longrightarrow> x \<le> 6 \<Longrightarrow> findRange (Fin x) = Some (toleranceTable ! 1)"
  by (simp add: findRange_def toleranceTable_def inRange_first inRange_later lit_bounds)

lemma findRange_2: "6 < x \<Longrightarrow> x \<le> 30 \<Longrightarrow> findRange (Fin x) = Some (toleranceTable ! 2)"
  by (simp add: findRange_def toleranceTable_def inRange_first inRange_later lit_bounds)

lemma findRange_3: "30 < x \<Longrightarrow> x \<le> 120 \<Longrightarrow> findRange (Fin x) = Some (toleranceTable ! 3)"
  by (simp add: findRange_def toleranceTable_def inRange_first inRange_later lit_bounds)

lemma findRange_4: "120 < x \<Longrightarrow> x \<le> 400 \<Longrightarrow> findRange (Fin x) = Some (toleranceTable ! 4)"
  by (simp add: findRange_def toleranceTable_def inRange_first inRange_later lit_bounds)

lemma findRange_5: "400 < x \<Longrightarrow> x \<le> 1000 \<Longrightarrow> findRange (Fin x) = Some (toleranceTable ! 5)"
  by (simp add: findRange_def toleranceTable_def inRange_first inRange_later lit_bounds)

lemma findRange_6: "1000 < x \<Longrightarrow> x \<le> 2000 \<Longrightarrow> findRange (Fin x) = Some (toleranceTable ! 6)"
  by (simp add: findRange_def toleranceTable_def inRange_first inRange_later lit_bounds)

lemma findRange_7: "2000 < x \<Longrightarrow> x \<le> 4000 \<Longrightarrow> findRange (Fin x) = Some (toleranceTable ! 7)"
  by (simp add: findRange_def toleranceTable_def inRange_first inRange_later lit_bounds)


lemma length_toleranceTable: "length toleranceTable = 8"
  by (simp add: toleranceTable_def)

lemma min_mm_table:
  "map min_mm toleranceTable
     = [Fin (1 / 2), Fin 3, Fin 6, Fin 30, Fin 120, Fin 400, Fin 1000, Fin 2000]"
  by (simp add: toleranceTable_def lit_bounds)

lemma max_mm_table:
  "map max_mm toleranceTable
     = [Fin 3, Fin 6, Fin 30, Fin 120, Fin 400, Fin 1000, Fin 2000, Fin 4000]"
  by (simp add: toleranceTable_def lit_bounds)

lemma row_eq_iff:
  assumes "i < 8" "j < 8"
  shows "(toleranceTable ! i = toleranceTable ! j) = (i = j)"
proof -
  have "distinct (map min_mm toleranceTable)"
    by (simp add: min_mm_table)
  then have "distinct toleranceTable"
    by (simp add: distinct_map)
  then show ?thesis
    using assms by (simp add: nth_eq_iff_index_eq length_toleranceTable)
qed

lemma findRange_index:
  assumes "1 / 2 \<le> x" "x \<le> 4000" "i < 8"
  shows "(findRange (Fin x) = Some (toleranceTable ! i)) =
     (i = (if x \<le> 3 then 0 else if x \<le> 6 then 1 else if x \<le> 30 then 2
           else if x \<le> 120 then 3 else if x \<le> 400 then 4 else if x \<le> 1000 then 5
           else if x \<le> 2000 then 6 else 7))"
proof -
  consider "x \<le> 3" | "3 < x" "x \<le> 6" | "6 < x" "x \<le> 30" | "30 < x" "x \<le> 120"
    | "120 < x" "x \<le> 400" | "400 < x" "x \<le> 1000" | "1000 < x" "x \<le> 2000" | "2000 < x"
    by linarith
  then show ?thesis
  proof cases
    case 1 then show ?thesis using assms findRange_0 [of x] row_eq_iff [of 0 i] by auto
  next
    case 2 then show ?thesis using assms findRange_1 [of x] row_eq_iff [of 1 i] by auto
  next
    case 3 then show ?thesis using assms findRange_2 [of x] row_eq_iff [of 2 i] by auto
  next
    case 4 then show ?thesis using assms findRange_3 [of x] row_eq_iff [of 3 i] by auto
  next
    case 5 then show ?thesis using assms findRange_4 [of x] row_eq_iff [of 4 i] by auto
  next
    case 6 then show ?thesis using assms findRange_5 [of x] row_eq_iff [of 5 i] by auto
  next
    case 7 then show ?thesis using assms findRange_6 [of x] row_eq_iff [of 6 i] by auto
  next
    case 8 then show ?thesis using assms findRange_7 [of x] row_eq_iff [of 7 i] by auto
  qed
qed

lemma nth_min_mm: "i < 8 \<Longrightarrow> min_mm (toleranceTable ! i) = map min_mm toleranceTable ! i"
  by (simp add: length_toleranceTable)

lemma nth_max_mm: "i < 8 \<Longrightarrow> max_mm (toleranceTable ! i) = map max_mm toleranceTable ! i"
  by (simp add: length_toleranceTable)

lemma later_bucket_iff:
  assumes "1 / 2 \<le> x" "x \<le> 4000" "1 \<le> i" "i < 8"
  shows "(findRange (Fin x) = Some (toleranceTable ! i)) =
         (gt (Fin x) (min_mm (toleranceTable ! i)) \<and> le (Fin x) (max_mm (toleranceTable ! i)))"
proof -
  from assms have "i = 1 \<or> i = 2 \<or> i = 3 \<or> i = 4 \<or> i = 5 \<or> i = 6 \<or> i = 7"
    by linarith
  then show ?thesis
    using assms(1,2)
    by (elim disjE)
      (auto simp add: findRange_index nth_min_mm nth_max_mm min_mm_table max_mm_table
        gt_def le_def)
qed

lemma lit_3_0001: "lit (30001 / 10000) = Fin (6755624621037113 / 2251799813685248)"
  by code_simp

section \<open>Range lookup\<close>

text \<open>
  C1. Range lookup uses a closed interval only for the first bucket and intervals open at
  the lower and closed at the upper bound for all others: a validated dimension \<open>d\<close> is
  assigned to the first bucket exactly when \<open>0.5 \<le> d \<le> 3\<close>, and to a later bucket
  exactly when \<open>min < d \<le> max\<close> for the bounds of that bucket. In particular \<open>d = 3\<close>
  falls in the first bucket \<open>[0.5, 3]\<close> and not in the second one \<open>(3, 6]\<close>, while
  \<open>d = 3.0001\<close> falls in \<open>(3, 6]\<close>.
\<close>

theorem range_lookup_intervals:
  "(isValidDimension d \<longrightarrow>
      (findRange d = Some (toleranceTable ! 0)) = (ge d (lit (5 / 10)) \<and> le d (lit 3))
      \<and> (\<forall>i. 1 \<le> i \<and> i < length toleranceTable \<longrightarrow>
            (findRange d = Some (toleranceTable ! i))
              = (gt d (min_mm (toleranceTable ! i)) \<and> le d (max_mm (toleranceTable ! i)))))
   \<and> min_mm (toleranceTable ! 0) = lit (5 / 10) \<and> max_mm (toleranceTable ! 0) = lit 3
   \<and> min_mm (toleranceTable ! 1) = lit 3 \<and> max_mm (toleranceTable ! 1) = lit 6
   \<and> isValidDimension (lit 3)
   \<and> findRange (lit 3) = Some (toleranceTable ! 0)
   \<and> findRange (lit 3) \<noteq> Some (toleranceTable ! 1)
   \<and> isValidDimension (lit (30001 / 10000))
   \<and> findRange (lit (30001 / 10000)) = Some (toleranceTable ! 1)"
proof -
  have general: "(findRange d = Some (toleranceTable ! 0)) = (ge d (lit (5 / 10)) \<and> le d (lit 3))
      \<and> (\<forall>i. 1 \<le> i \<and> i < length toleranceTable \<longrightarrow>
            (findRange d = Some (toleranceTable ! i))
              = (gt d (min_mm (toleranceTable ! i)) \<and> le d (max_mm (toleranceTable ! i))))"
    if "isValidDimension d"
  proof -
    from that obtain x where d: "d = Fin x" and x: "1 / 2 \<le> x" "x \<le> 4000"
      by (auto simp: isValidDimension_iff)
    have "(findRange d = Some (toleranceTable ! 0)) = (ge d (lit (5 / 10)) \<and> le d (lit 3))"
      using x by (simp add: d findRange_index ge_def le_def lit_bounds)
    moreover have "(findRange d = Some (toleranceTable ! i))
              = (gt d (min_mm (toleranceTable ! i)) \<and> le d (max_mm (toleranceTable ! i)))"
      if "1 \<le> i" "i < length toleranceTable" for i
      using that x by (simp add: d later_bucket_iff length_toleranceTable)
    ultimately show ?thesis
      by blast
  qed
  have bounds: "min_mm (toleranceTable ! 0) = lit (5 / 10)" "max_mm (toleranceTable ! 0) = lit 3"
    "min_mm (toleranceTable ! 1) = lit 3" "max_mm (toleranceTable ! 1) = lit 6"
    by (simp_all add: toleranceTable_def)
  have three: "isValidDimension (lit 3)" "findRange (lit 3) = Some (toleranceTable ! 0)"
    "findRange (lit 3) \<noteq> Some (toleranceTable ! 1)"
    by (simp_all add: lit_bounds isValidDimension_Fin findRange_index)
  have above: "isValidDimension (lit (30001 / 10000))"
    "findRange (lit (30001 / 10000)) = Some (toleranceTable ! 1)"
    by (simp_all add: lit_3_0001 isValidDimension_Fin findRange_index)
  from general bounds three above show ?thesis
    by blast
qed

theorem range_lookup_intervals_witness:
  "isValidDimension (lit 30) \<and> (1::nat) \<le> 2 \<and> 2 < length toleranceTable
   \<and> findRange (lit 30) = Some (toleranceTable ! 2)
   \<and> gt (lit 30) (min_mm (toleranceTable ! 2)) \<and> le (lit 30) (max_mm (toleranceTable ! 2))
   \<and> findRange (lit 30) \<noteq> Some (toleranceTable ! 0)"
proof -
  have v: "isValidDimension (lit 30)"
    by (simp add: lit_bounds isValidDimension_Fin)
  have i: "(1::nat) \<le> 2 \<and> 2 < length toleranceTable"
    by (simp add: length_toleranceTable)
  have b: "gt (lit 30) (min_mm (toleranceTable ! 2)) \<and> le (lit 30) (max_mm (toleranceTable ! 2))"
    by (simp add: toleranceTable_def lit_bounds gt_def le_def)
  have n: "\<not> (ge (lit 30) (lit (5 / 10)) \<and> le (lit 30) (lit 3))"
    by (simp add: lit_bounds ge_def le_def)
  from range_lookup_intervals [of "lit 30"] v i b n show ?thesis
    by (metis option.inject)
qed

section \<open>Tolerances and limits\<close>


lemma lit_tolerances:
  "lit (1 / 20) = Fin (3602879701896397 / 72057594037927936)"
  "lit (1 / 10) = Fin (3602879701896397 / 36028797018963968)"
  "lit (1 / 5) = Fin (3602879701896397 / 18014398509481984)"
  "lit (3 / 10) = Fin (5404319552844595 / 18014398509481984)"
  "lit (3 / 20) = Fin (5404319552844595 / 36028797018963968)"
  "lit (4 / 5) = Fin (3602879701896397 / 4503599627370496)"
  "lit (6 / 5) = Fin (5404319552844595 / 4503599627370496)"
  "lit (3 / 2) = Fin (3 / 2)" "lit (5 / 2) = Fin (5 / 2)"
  "lit 1 = Fin 1" "lit 2 = Fin 2" "lit 4 = Fin 4" "lit 8 = Fin 8"
  by code_simp+

lemma findRange_Fin:
  assumes "1 / 2 \<le> x" "x \<le> 4000"
  shows "findRange (Fin x) = Some (toleranceTable !
     (if x \<le> 3 then 0 else if x \<le> 6 then 1 else if x \<le> 30 then 2
      else if x \<le> 120 then 3 else if x \<le> 400 then 4 else if x \<le> 1000 then 5
      else if x \<le> 2000 then 6 else 7))"
  using assms by (subst findRange_index) simp_all

lemma tolerance_Fin:
  assumes "1 / 2 \<le> x" "x \<le> 4000"
  shows "tolerance (Fin x) g = tolerances (toleranceTable !
     (if x \<le> 3 then 0 else if x \<le> 6 then 1 else if x \<le> 30 then 2
      else if x \<le> 120 then 3 else if x \<le> 400 then 4 else if x \<le> 1000 then 5
      else if x \<le> 2000 then 6 else 7)) g"
  using assms by (simp add: tolerance_def isValidDimension_Fin findRange_Fin)

lemma tolerances_table:
  "map (\<lambda>r. tolerances r Class_f) toleranceTable =
     [Some (lit (1 / 20)), Some (lit (1 / 20)), Some (lit (1 / 10)), Some (lit (3 / 20)),
      Some (lit (1 / 5)), Some (lit (3 / 10)), Some (lit (1 / 2)), None]"
  "map (\<lambda>r. tolerances r Class_m) toleranceTable =
     [Some (lit (1 / 10)), Some (lit (1 / 10)), Some (lit (1 / 5)), Some (lit (3 / 10)),
      Some (lit (1 / 2)), Some (lit (4 / 5)), Some (lit (6 / 5)), Some (lit 2)]"
  "map (\<lambda>r. tolerances r Class_c) toleranceTable =
     [Some (lit (1 / 5)), Some (lit (3 / 10)), Some (lit (1 / 2)), Some (lit (4 / 5)),
      Some (lit (6 / 5)), Some (lit 2), Some (lit 3), Some (lit 4)]"
  "map (\<lambda>r. tolerances r Class_v) toleranceTable =
     [None, Some (lit (1 / 2)), Some (lit 1), Some (lit (3 / 2)),
      Some (lit (5 / 2)), Some (lit 4), Some (lit 6), Some (lit 8)]"
  by (simp_all add: toleranceTable_def row_def)

lemma nth_tolerances:
  "i < 8 \<Longrightarrow> tolerances (toleranceTable ! i) g = map (\<lambda>r. tolerances r g) toleranceTable ! i"
  by (simp add: length_toleranceTable)

lemma tolerance_bounds:
  assumes "1 / 2 \<le> x" "x \<le> 4000" "tolerance (Fin x) g = Some t"
  shows "\<exists>tv. t = Fin tv \<and> 1 / 32 \<le> tv \<and> tv \<le> 8 \<and> tv \<le> x - 1 / 4"
  using assms
  by (cases g)
    (auto simp add: tolerance_Fin nth_tolerances tolerances_table lit_tolerances lit_bounds
      split: if_splits)


lemma lit_samples:
  "lit 10 = Fin 10" "lit 3000 = Fin 3000" "lit 0 = Fin 0"
  by code_simp+




section \<open>Coverage of the domain and grades without tolerance\<close>


lemma inRange_nth:
  assumes "i < 8"
  shows "inRange d (toleranceTable ! i) =
     (\<exists>x. d = Fin x
        \<and> (if i = 0 then 1 / 2 \<le> x else [1 / 2, 3, 6, 30, 120, 400, 1000, 2000] ! i < x)
        \<and> x \<le> [3, 6, 30, 120, 400, 1000, 2000, 4000] ! i)"
proof -
  from assms have "i = 0 \<or> i = 1 \<or> i = 2 \<or> i = 3 \<or> i = 4 \<or> i = 5 \<or> i = 6 \<or> i = 7"
    by linarith
  then show ?thesis
    by (elim disjE; cases d)
      (auto simp add: toleranceTable_def lit_bounds inRange_def strictEquals_def
        gt_def ge_def le_def)
qed

lemma ranges_disjoint:
  assumes "i < 8" "j < 8" "inRange d (toleranceTable ! i)" "inRange d (toleranceTable ! j)"
  shows "i = j"
proof -
  from assms(1) have i: "i = 0 \<or> i = 1 \<or> i = 2 \<or> i = 3 \<or> i = 4 \<or> i = 5 \<or> i = 6 \<or> i = 7"
    by linarith
  from assms(2) have j: "j = 0 \<or> j = 1 \<or> j = 2 \<or> j = 3 \<or> j = 4 \<or> j = 5 \<or> j = 6 \<or> j = 7"
    by linarith
  from assms(3,4) obtain x :: rat where
    "(if i = 0 then 1 / 2 \<le> x else [1 / 2, 3, 6, 30, 120, 400, 1000, 2000] ! i < x)"
    "x \<le> [3, 6, 30, 120, 400, 1000, 2000, 4000] ! i"
    "(if j = 0 then 1 / 2 \<le> x else [1 / 2, 3, 6, 30, 120, 400, 1000, 2000] ! j < x)"
    "x \<le> [3, 6, 30, 120, 400, 1000, 2000, 4000] ! j"
    by (auto simp add: inRange_nth [OF assms(1)] inRange_nth [OF assms(2)])
  with i j show ?thesis
    by (elim disjE) simp_all
qed

text \<open>
  C4. The ranges of the tolerance table are contiguous (each upper bound is the next lower
  bound, from 0.5 to 4000), no dimension lies in two of them, and together they cover the
  domain \<open>[0.5, 4000]\<close>: for every validated dimension the lookup finds a range, so the
  branch for a lookup without result is not reachable after validation.
\<close>

theorem table_covers_domain:
  "(\<forall>i. Suc i < length toleranceTable \<longrightarrow>
        max_mm (toleranceTable ! i) = min_mm (toleranceTable ! Suc i))
   \<and> min_mm (toleranceTable ! 0) = lit (5 / 10)
   \<and> max_mm (last toleranceTable) = lit 4000
   \<and> (\<forall>d i j. i < length toleranceTable \<and> j < length toleranceTable
          \<and> inRange d (toleranceTable ! i) \<and> inRange d (toleranceTable ! j) \<longrightarrow> i = j)
   \<and> (\<forall>d. isValidDimension d \<longrightarrow>
          (\<exists>r \<in> set toleranceTable. inRange d r \<and> findRange d = Some r))"
proof -
  have contiguous: "max_mm (toleranceTable ! i) = min_mm (toleranceTable ! Suc i)"
    if "Suc i < length toleranceTable" for i
  proof -
    from that have "i = 0 \<or> i = 1 \<or> i = 2 \<or> i = 3 \<or> i = 4 \<or> i = 5 \<or> i = 6"
      by (simp add: length_toleranceTable) linarith
    then show ?thesis
      by (elim disjE) (simp_all add: toleranceTable_def)
  qed
  have ends: "min_mm (toleranceTable ! 0) = lit (5 / 10)" "max_mm (last toleranceTable) = lit 4000"
    by (simp_all add: toleranceTable_def)
  have disjoint: "i = j"
    if "i < length toleranceTable \<and> j < length toleranceTable
          \<and> inRange d (toleranceTable ! i) \<and> inRange d (toleranceTable ! j)" for d i j
    using that ranges_disjoint [of i j d] by (simp add: length_toleranceTable)
  have covered: "\<exists>r \<in> set toleranceTable. inRange d r \<and> findRange d = Some r"
    if "isValidDimension d" for d
  proof -
    from that obtain x where d: "d = Fin x" and x: "1 / 2 \<le> x" "x \<le> 4000"
      by (auto simp: isValidDimension_iff)
    from findRange_Fin [OF x] obtain r where r: "findRange d = Some r"
      by (simp add: d)
    then have "r \<in> set toleranceTable" "inRange d r"
      by (auto simp add: findRange_def find_Some_iff)
    with r show ?thesis
      by blast
  qed
  from contiguous ends disjoint covered show ?thesis
    by blast
qed

theorem table_covers_domain_witness:
  "Suc 0 < length toleranceTable \<and> max_mm (toleranceTable ! 0) = min_mm (toleranceTable ! Suc 0)
   \<and> isValidDimension (lit 4000)
   \<and> (\<exists>r \<in> set toleranceTable. inRange (lit 4000) r \<and> findRange (lit 4000) = Some r)
   \<and> inRange (lit 4000) (toleranceTable ! 7) \<and> \<not> inRange (lit 4000) (toleranceTable ! 6)"
proof -
  have l: "Suc 0 < length toleranceTable" "6 < length toleranceTable" "7 < length toleranceTable"
    by (simp_all add: length_toleranceTable)
  have v: "isValidDimension (lit 4000)"
    by (simp add: lit_bounds isValidDimension_Fin)
  have i: "inRange (lit 4000) (toleranceTable ! 7)"
    by (simp add: lit_bounds inRange_nth)
  from table_covers_domain l v i show ?thesis
    by (metis numeral_eq_iff semiring_norm(89))
qed

text \<open>
  C5, amended. For every valid dimension \<open>d\<close>, the tolerance of grade very-coarse is not
  specified exactly when \<open>d \<le> 3\<close> (at or below 3 mm, the first bucket being closed at 3),
  and the tolerance of grade fine is not specified exactly when \<open>d > 2000\<close>; in particular
  \<open>d = 3000\<close> with grade fine has no tolerance.
\<close>

theorem unspecified_grades:
  "(isValidDimension d \<longrightarrow>
      (tolerance d Class_v = None) = le d (lit 3)
      \<and> (tolerance d Class_f = None) = gt d (lit 2000))
   \<and> isValidDimension (lit 3000) \<and> tolerance (lit 3000) Class_f = None"
proof -
  have general: "(tolerance d Class_v = None) = le d (lit 3)
      \<and> (tolerance d Class_f = None) = gt d (lit 2000)" if "isValidDimension d"
  proof -
    from that obtain x where d: "d = Fin x" and x: "1 / 2 \<le> x" "x \<le> 4000"
      by (auto simp: isValidDimension_iff)
    show ?thesis
      using x by (simp add: d tolerance_Fin nth_tolerances tolerances_table lit_bounds
          le_def gt_def)
  qed
  have "isValidDimension (lit 3000)" "tolerance (lit 3000) Class_f = None"
    by (simp_all add: lit_samples isValidDimension_Fin tolerance_Fin nth_tolerances
        tolerances_table)
  with general show ?thesis
    by blast
qed

theorem unspecified_grades_witness:
  "isValidDimension (lit 3) \<and> tolerance (lit 3) Class_v = None \<and> le (lit 3) (lit 3)
   \<and> tolerance (lit 3) Class_f \<noteq> None \<and> \<not> gt (lit 3) (lit 2000)"
proof -
  have v: "isValidDimension (lit 3)"
    by (simp add: lit_bounds isValidDimension_Fin)
  have c: "le (lit 3) (lit 3)" "\<not> gt (lit 3) (lit 2000)"
    by (simp_all add: lit_bounds le_def gt_def)
  from unspecified_grades [of "lit 3"] v c show ?thesis
    by blast
qed

text \<open>
  C5 as stated ("exactly when \<open>d\<close> is below 3 mm") fails at the boundary: \<open>d = 3\<close> is valid and
  not below 3, yet grade very-coarse has no tolerance there.
\<close>

theorem very_coarse_unspecified_at_3:
  "isValidDimension (lit 3) \<and> tolerance (lit 3) Class_v = None \<and> \<not> lt (lit 3) (lit 3)"
  by (simp add: lit_bounds isValidDimension_Fin tolerance_Fin nth_tolerances tolerances_table)

section \<open>Parsing, validation and the rendered outcome\<close>


lemma parseFloat_samples:
  "parseFloat ''10'' = Fin 10"
  "parseFloat ''10abc'' = Fin 10"
  "parseFloat ''0.4'' = Fin (3602879701896397 / 9007199254740992)"
  "parseFloat ''4000'' = Fin 4000"
  "parseFloat ''2.7'' = Fin (3039929748475085 / 1125899906842624)"
  "parseFloat ''abc'' = NaN"
  by code_simp+

lemma strDecimalLiteral_10abc: "strDecimalLiteral ''10abc'' = Some (Fin 10, ''abc'')"
  by code_simp

lemma strDecimalLiteral_10: "strDecimalLiteral ''10'' = Some (Fin 10, [])"
  by code_simp

lemma StringToNumber_10abc: "StringToNumber ''10abc'' = NaN"
  by code_simp

lemma sum_samples:
  "add (Fin 10) (Fin (3602879701896397 / 18014398509481984)) = Fin (2871044762448691 / 281474976710656)"
  "sub (Fin 10) (Fin (3602879701896397 / 18014398509481984)) = Fin (2758454771764429 / 281474976710656)"
  "lit (51 / 5) = Fin (2871044762448691 / 281474976710656)"
  "lit (49 / 5) = Fin (2758454771764429 / 281474976710656)"
  "lit (27 / 10) = Fin (3039929748475085 / 1125899906842624)"
  "lit (29 / 10) = Fin (6530219459687219 / 2251799813685248)"
  "add (Fin (3039929748475085 / 1125899906842624)) (Fin (3602879701896397 / 18014398509481984))
     = Fin (6530219459687220 / 2251799813685248)"
  "sub (Fin (3039929748475085 / 1125899906842624)) (Fin (3602879701896397 / 18014398509481984))
     = Fin (5 / 2)"
  by code_simp+

lemma formatNumber_samples:
  "formatNumber (Some (Fin (6530219459687220 / 2251799813685248))) = Inr ''2.9''"
  "formatNumber (Some (Fin (3602879701896397 / 18014398509481984))) = Inr ''0.2''"
  "formatNumber (Some (Fin (2871044762448691 / 281474976710656))) = Inr ''10.2''"
  "formatNumber (Some (Fin (2758454771764429 / 281474976710656))) = Inr ''9.8''"
  by code_simp+

lemma toString_sample:
  "toString (Fin (6530219459687220 / 2251799813685248)) = ''2.9000000000000004''"
  by code_simp

lemma toString_tie_samples:
  \<comment> \<open>the doubles \<open>2 ^ 49 + 3 / 4\<close> and \<open>2 ^ 49 + 1 / 4\<close>: two digit strings of the least length
      are equally near, the even one is taken\<close>
  "toString (Fin (2251799813685251 / 4)) = ''562949953421312.8''"
  "toString (Fin (2251799813685249 / 4)) = ''562949953421312.2''"
  by code_simp+

lemma roundToDouble_not_NaN: "roundToDouble x \<noteq> NaN"
  by (simp add: roundToDouble_def Let_def)

lemma parseFloat_NaN_iff:
  "isNaN (parseFloat s) = (strDecimalLiteral (dropWhile isWhiteSpace s) = None)"
  by (auto simp add: isNaN_def parseFloat_def strDecimalLiteral_def Let_def roundToDouble_not_NaN
      split: option.splits prod.splits list.splits if_splits)

lemma isValidDimension_cases:
  "(\<not> isValidDimension n) = (isNaN n \<or> lt n (lit (5 / 10)) \<or> gt n (lit 4000))"
  by (cases n) (auto simp add: isValidDimension_def isNaN_def ge_def le_def gt_def lit_bounds)

lemma toFixed_3: "\<exists>f. toFixed x 3 = Inr f"
  by (cases x) (simp_all add: toFixed_def Let_def)

lemma formatNumber_total: "\<exists>f. formatNumber num = Inr f"
proof (cases num)
  case None
  then show ?thesis by (simp add: formatNumber_def)
next
  case (Some x)
  with toFixed_3 [of x] show ?thesis by (auto simp add: formatNumber_def)
qed

lemma App_Results:
  assumes "tolerance (parseFloat s) g = Some t"
  shows "\<exists>a b c. App s g = Inr (Results a b c)
     \<and> formatNumber (Some t) = Inr a
     \<and> formatNumber (upperLimit (parseFloat s) (Some t)) = Inr b
     \<and> formatNumber (lowerLimit (parseFloat s) (Some t)) = Inr c"
proof -
  obtain a where a: "formatNumber (Some t) = Inr a"
    using formatNumber_total by blast
  obtain b where b: "formatNumber (upperLimit (parseFloat s) (Some t)) = Inr b"
    using formatNumber_total by blast
  obtain c where c: "formatNumber (lowerLimit (parseFloat s) (Some t)) = Inr c"
    using formatNumber_total by blast
  show ?thesis
    using assms a b c by (simp add: App_def Let_def)
qed

lemma App_message:
  assumes "tolerance (parseFloat s) g = None"
  shows "App s g = Inr (if isValidDimension (parseFloat s) then NotSpecifiedMessage
                        else EnterValidDimensionMessage)"
  using assms by (simp add: App_def Let_def)

lemma tolerance_invalid: "\<not> isValidDimension d \<Longrightarrow> tolerance d g = None"
  by (simp add: tolerance_def)

text \<open>
  C8. No operation throws: for every input string and grade the component renders
  (the model has a result, never the RangeError that \<^verbatim>\<open>toFixed\<close> can raise), and the outcome is
  exactly one of three distinguishable results: the formatted tolerance record, the
  message for an invalid dimension (exactly when validation failed), or the message for
  an unspecified tolerance (exactly when validation succeeded and the table defines no
  value for that dimension and grade). The two messages are distinct outcomes.
\<close>

theorem outcomes_distinct_no_exception:
  "(\<exists>v. App s g = Inr v)
   \<and> (App s g = Inr EnterValidDimensionMessage) = (\<not> isValidDimension (parseFloat s))
   \<and> (App s g = Inr NotSpecifiedMessage)
       = (isValidDimension (parseFloat s)
          \<and> (\<exists>r. findRange (parseFloat s) = Some r \<and> tolerances r g = None))
   \<and> (\<exists>a b c. App s g = Inr (Results a b c))
       = (isValidDimension (parseFloat s)
          \<and> (\<exists>r t. findRange (parseFloat s) = Some r \<and> tolerances r g = Some t))"
proof (cases "isValidDimension (parseFloat s)")
  case False
  then show ?thesis
    by (simp add: App_message tolerance_invalid)
next
  case True
  then obtain r where r: "findRange (parseFloat s) = Some r"
    using findRange_Fin by (auto simp add: isValidDimension_iff)
  with True have t: "tolerance (parseFloat s) g = tolerances r g"
    by (simp add: tolerance_def)
  show ?thesis
  proof (cases "tolerances r g")
    case None
    with t True r show ?thesis
      by (simp add: App_message)
  next
    case (Some t')
    with t have "tolerance (parseFloat s) g = Some t'"
      by simp
    from App_Results [OF this] True r Some show ?thesis
      by auto
  qed
qed

text \<open>
  C7. For the dimension \<open>d = 10\<close> with grade medium, resolution assigns the bucket \<open>(6, 30]\<close>,
  the tolerance is 0.2, the upper limit is 10.2 and the lower limit is 9.8 (each the
  double that the decimal literal denotes), and they are displayed as such.
\<close>

theorem tolerance_example_10_medium:
  "parseFloat ''10'' = lit 10
   \<and> findRange (lit 10) = Some (toleranceTable ! 2)
   \<and> min_mm (toleranceTable ! 2) = lit 6 \<and> max_mm (toleranceTable ! 2) = lit 30
   \<and> tolerance (lit 10) Class_m = Some (lit (2 / 10))
   \<and> upperLimit (lit 10) (tolerance (lit 10) Class_m) = Some (lit (102 / 10))
   \<and> lowerLimit (lit 10) (tolerance (lit 10) Class_m) = Some (lit (98 / 10))
   \<and> App ''10'' Class_m = Inr (Results ''0.2'' ''10.2'' ''9.8'')"
proof -
  have t: "tolerance (Fin 10) Class_m = Some (Fin (3602879701896397 / 18014398509481984))"
    by (simp add: tolerance_Fin nth_tolerances tolerances_table lit_tolerances)
  have "parseFloat ''10'' = lit 10"
    by (simp add: parseFloat_samples lit_samples)
  moreover have "findRange (lit 10) = Some (toleranceTable ! 2)"
    by (simp add: lit_samples findRange_Fin)
  moreover have "min_mm (toleranceTable ! 2) = lit 6" "max_mm (toleranceTable ! 2) = lit 30"
    by (simp_all add: toleranceTable_def)
  moreover have "tolerance (lit 10) Class_m = Some (lit (2 / 10))"
    by (simp add: lit_samples t lit_tolerances)
  moreover have "upperLimit (lit 10) (tolerance (lit 10) Class_m) = Some (lit (102 / 10))"
    "lowerLimit (lit 10) (tolerance (lit 10) Class_m) = Some (lit (98 / 10))"
    by (simp_all add: lit_samples t upperLimit_def lowerLimit_def sum_samples del: add.simps)
  moreover have "App ''10'' Class_m = Inr (Results ''0.2'' ''10.2'' ''9.8'')"
    by (simp add: App_def Let_def parseFloat_samples t upperLimit_def lowerLimit_def
        sum_samples formatNumber_samples del: add.simps)
  ultimately show ?thesis
    by blast
qed

text \<open>
  C3. Validation of the dimension fails exactly when the input string is not parseable as
  a number (\<^verbatim>\<open>parseFloat\<close> finds no decimal literal at its start and yields NaN), or the
  parsed value is less than 0.5, or greater than 4000. In particular the input \<^verbatim>\<open>0.4\<close> is
  invalid, and the input \<^verbatim>\<open>4000\<close> is valid and resolves against the bucket \<open>(2000, 4000]\<close>.
\<close>

theorem validation_fails_iff:
  "(\<not> isValidDimension (parseFloat s))
      = (isNaN (parseFloat s) \<or> lt (parseFloat s) (lit (5 / 10)) \<or> gt (parseFloat s) (lit 4000))
   \<and> isNaN (parseFloat s) = (strDecimalLiteral (dropWhile isWhiteSpace s) = None)
   \<and> \<not> isValidDimension (parseFloat ''0.4'')
   \<and> App ''0.4'' g = Inr EnterValidDimensionMessage
   \<and> isValidDimension (parseFloat ''4000'')
   \<and> findRange (parseFloat ''4000'') = Some (toleranceTable ! 7)
   \<and> min_mm (toleranceTable ! 7) = lit 2000 \<and> max_mm (toleranceTable ! 7) = lit 4000"
proof -
  have low: "\<not> isValidDimension (parseFloat ''0.4'')"
    by (simp add: parseFloat_samples isValidDimension_Fin)
  then have "App ''0.4'' g = Inr EnterValidDimensionMessage"
    by (simp add: App_message tolerance_invalid)
  moreover have "isValidDimension (parseFloat ''4000'')"
    "findRange (parseFloat ''4000'') = Some (toleranceTable ! 7)"
    by (simp_all add: parseFloat_samples isValidDimension_Fin findRange_Fin)
  moreover have "min_mm (toleranceTable ! 7) = lit 2000" "max_mm (toleranceTable ! 7) = lit 4000"
    by (simp_all add: toleranceTable_def)
  ultimately show ?thesis
    using low isValidDimension_cases [of "parseFloat s"] parseFloat_NaN_iff [of s]
    by blast
qed

section \<open>Formatting: three decimal digits, then the shortest text\<close>

text \<open>
  \<^verbatim>\<open>toFixed(3)\<close> writes the multiple of one thousandth nearest to its argument as digits with
  three decimals; \<^verbatim>\<open>Number\<close> reads exactly that multiple back, rounded to a double.
\<close>


lemma isDigit_iff:
  "isDigit ch = (ch = CHR ''0'' \<or> ch = CHR ''1'' \<or> ch = CHR ''2'' \<or> ch = CHR ''3''
     \<or> ch = CHR ''4'' \<or> ch = CHR ''5'' \<or> ch = CHR ''6'' \<or> ch = CHR ''7''
     \<or> ch = CHR ''8'' \<or> ch = CHR ''9'')"
  by (auto simp add: isDigit_def)

lemma digit_not_space: "isDigit ch \<Longrightarrow> \<not> isWhiteSpace ch"
  by (auto simp add: isDigit_iff isWhiteSpace_def)

lemma digit_char:
  assumes "0 \<le> (k::int)" "k < 10"
  shows "isDigit (''0123456789'' ! nat k)" "digitValue (''0123456789'' ! nat k) = k"
proof -
  from assms have "k = 0 \<or> k = 1 \<or> k = 2 \<or> k = 3 \<or> k = 4 \<or> k = 5 \<or> k = 6 \<or> k = 7 \<or> k = 8 \<or> k = 9"
    by presburger
  then show "isDigit (''0123456789'' ! nat k)" "digitValue (''0123456789'' ! nat k) = k"
    by (auto simp add: isDigit_iff digitValue_def)
qed

lemma decimalValue_snoc: "decimalValue (ds @ [ch]) = 10 * decimalValue ds + digitValue ch"
  by (simp add: decimalValue_def)

lemma digitsOf_props:
  "0 \<le> n \<Longrightarrow> list_all isDigit (digitsOf n) \<and> digitsOf n \<noteq> [] \<and> decimalValue (digitsOf n) = n"
proof (induction n rule: digitsOf.induct)
  case (1 n)
  show ?case
  proof (cases "n < 10")
    case True
    with 1(2) show ?thesis
      by (simp add: digitsOf.simps [of n] digit_char decimalValue_def)
  next
    case False
    with 1 have IH: "list_all isDigit (digitsOf (n div 10))" "decimalValue (digitsOf (n div 10)) = n div 10"
      by simp_all
    have "0 \<le> n mod 10" "n mod 10 < 10"
      by simp_all
    then have "isDigit (''0123456789'' ! nat (n mod 10))"
      "digitValue (''0123456789'' ! nat (n mod 10)) = n mod 10"
      by (rule digit_char)+
    with IH False show ?thesis
      by (simp add: digitsOf.simps [of n] decimalValue_snoc)
  qed
qed


lemma decimalValue_zeros: "decimalValue (replicate k (CHR ''0'') @ ds) = decimalValue ds"
proof -
  have "foldl (\<lambda>a ch. 10 * a + digitValue ch) 0 (replicate k (CHR ''0'')) = 0"
    by (induction k) (simp_all add: digitValue_def)
  then show ?thesis
    by (simp add: decimalValue_def)
qed

lemma takeWhile_digits:
  assumes "list_all isDigit ip" "\<not> isDigit ch"
  shows "takeWhile isDigit (ip @ ch # rest) = ip" "dropWhile isDigit (ip @ ch # rest) = ch # rest"
  using assms by (induction ip) simp_all

lemma takeWhile_all_digits:
  assumes "list_all isDigit fp"
  shows "takeWhile isDigit fp = fp" "dropWhile isDigit fp = []"
  using assms by (induction fp) simp_all

lemma dot_not_digit: "\<not> isDigit (CHR ''.'')"
  by (simp add: isDigit_iff)

lemma strUnsignedDecimalLiteral_fixed:
  assumes "list_all isDigit ip" "ip \<noteq> []" "list_all isDigit fp"
  shows "strUnsignedDecimalLiteral (ip @ ''.'' @ fp)
     = Some (of_int (decimalValue (ip @ fp)) / 10 ^ length fp, [])"
  using assms
  by (simp add: strUnsignedDecimalLiteral_def Let_def takeWhile_digits dot_not_digit
      takeWhile_all_digits exponentPart_def pow10_def)

lemma strDecimalLiteral_fixed:
  assumes "list_all isDigit ip" "ip \<noteq> []" "list_all isDigit fp"
  shows "strDecimalLiteral (ip @ ''.'' @ fp)
     = Some (roundToDouble (of_int (decimalValue (ip @ fp)) / 10 ^ length fp), [])"
proof -
  obtain c cs where ip: "ip = c # cs"
    using assms(2) by (cases ip) auto
  with assms(1) have c: "isDigit c"
    by simp
  then have "c \<noteq> CHR ''-''" "c \<noteq> CHR ''+''" "c \<noteq> CHR ''I''"
    by (auto simp add: isDigit_iff)
  then show ?thesis
    using strUnsignedDecimalLiteral_fixed [OF assms]
    by (simp add: strDecimalLiteral_def ip)
qed


lemma trim_digits:
  assumes "s \<noteq> []" "isDigit (hd s)" "isDigit (last s)"
  shows "trim s = s"
proof -
  obtain c cs where s: "s = c # cs"
    using assms(1) by (cases s) auto
  have 1: "dropWhile isWhiteSpace s = s"
    using assms(2) by (simp add: s digit_not_space)
  obtain d ds where r: "rev s = d # ds"
    using assms(1) by (cases "rev s") auto
  then have "d = last s"
    by (metis last_rev list.sel(1) rev_rev_ident)
  then have "dropWhile isWhiteSpace (rev s) = rev s"
    using assms(3) by (simp add: r digit_not_space)
  with 1 show ?thesis
    by (simp add: trim_def)
qed

lemma nonDecimalIntegerLiteral_fixed:
  assumes "list_all isDigit ip" "ip \<noteq> []"
  shows "nonDecimalIntegerLiteral (ip @ ''.'' @ fp) = None"
proof -
  obtain c cs where ip: "ip = c # cs"
    using assms(2) by (cases ip) auto
  show ?thesis
  proof (cases cs)
    case Nil
    then show ?thesis
      by (simp add: ip nonDecimalIntegerLiteral_def)
  next
    case (Cons p ps)
    with assms(1) have "isDigit p"
      by (simp add: ip)
    then have "p \<noteq> CHR ''x''" "p \<noteq> CHR ''X''" "p \<noteq> CHR ''o''" "p \<noteq> CHR ''O''"
      "p \<noteq> CHR ''b''" "p \<noteq> CHR ''B''"
      by (auto simp add: isDigit_iff)
    then show ?thesis
      by (simp add: ip Cons nonDecimalIntegerLiteral_def)
  qed
qed

lemma StringToNumber_fixed:
  assumes "list_all isDigit ip" "ip \<noteq> []" "list_all isDigit fp" "fp \<noteq> []"
  shows "StringToNumber (ip @ ''.'' @ fp)
     = roundToDouble (of_int (decimalValue (ip @ fp)) / 10 ^ length fp)"
proof -
  have "isDigit (hd (ip @ ''.'' @ fp))"
    using assms(1,2) by (cases ip) simp_all
  moreover have "isDigit (last (ip @ ''.'' @ fp))"
    using assms(3,4) by (cases fp rule: rev_cases) simp_all
  ultimately have "trim (ip @ ''.'' @ fp) = ip @ ''.'' @ fp"
    by (intro trim_digits) simp_all
  then show ?thesis
    using assms(2) nonDecimalIntegerLiteral_fixed [OF assms(1,2), of fp]
      strDecimalLiteral_fixed [OF assms(1,2,3)]
    by (simp add: StringToNumber_def Let_def)
qed


lemma list_all_take_drop:
  "list_all P xs \<Longrightarrow> list_all P (take n xs) \<and> list_all P (drop n xs)"
  by (auto simp add: list_all_iff dest: in_set_takeD in_set_dropD)

lemma fixedInteger_nonneg: "0 \<le> a \<Longrightarrow> 0 \<le> fixedInteger a f"
  by (simp add: fixedInteger_def)

lemma fixedInteger_nearest:
  "\<bar>of_int (fixedInteger a 3) / 1000 - a\<bar> \<le> \<bar>of_int m / 1000 - a\<bar>"
proof -
  define n where "n = fixedInteger a 3"
  have "n = \<lfloor>a * 1000 + 1 / 2\<rfloor>"
    by (simp add: n_def fixedInteger_def)
  then have n: "of_int n \<le> a * 1000 + 1 / 2" "a * 1000 + 1 / 2 < of_int n + 1"
    using floor_correct [of "a * 1000 + 1 / 2"] by simp_all
  have near: "\<bar>of_int n - a * 1000\<bar> \<le> 1 / 2"
    using n by linarith
  have far: "\<bar>of_int n - a * 1000\<bar> \<le> \<bar>of_int m - a * 1000\<bar>"
  proof (cases "m = n")
    case True
    then show ?thesis by simp
  next
    case False
    then consider "m \<le> n - 1" | "n + 1 \<le> m"
      by linarith
    then have "1 / 2 \<le> \<bar>of_int m - a * 1000\<bar>"
    proof cases
      case 1
      then have "(of_int m :: rat) \<le> of_int n - 1"
        by (metis of_int_1 of_int_diff of_int_le_iff)
      with n show ?thesis by linarith
    next
      case 2
      then have "(of_int n :: rat) + 1 \<le> of_int m"
        by (metis of_int_1 of_int_add of_int_le_iff)
      with n show ?thesis by linarith
    qed
    with near show ?thesis by linarith
  qed
  have "\<bar>of_int k / 1000 - a\<bar> = \<bar>of_int k - a * 1000\<bar> / 1000" for k :: int
  proof -
    have "of_int k / 1000 - a = (of_int k - a * 1000) / 1000"
      by (simp add: field_simps)
    then show ?thesis
      by (simp only: abs_divide)
  qed
  with far show ?thesis
    by (simp add: n_def divide_right_mono)
qed

lemma toFixed_3_value:
  assumes "0 \<le> a" "a < 10 ^ 21"
  shows "\<exists>f. toFixed (Fin a) 3 = Inr f
           \<and> StringToNumber f = roundToDouble (of_int (fixedInteger a 3) / 1000)"
proof -
  define n where "n = fixedInteger a 3"
  define m where "m = digitsOf n"
  define m' where "m' = (if length m \<le> 3 then replicate (3 + 1 - length m) (CHR ''0'') @ m else m)"
  define ip where "ip = take (length m' - 3) m'"
  define fp where "fp = drop (length m' - 3) m'"
  have n0: "0 \<le> n"
    using assms(1) by (simp add: n_def fixedInteger_nonneg)
  have m: "list_all isDigit m" "m \<noteq> []" "decimalValue m = n"
    using digitsOf_props [OF n0] by (simp_all add: m_def)
  have zero: "isDigit (CHR ''0'')"
    by (simp add: isDigit_iff)
  have m'1: "list_all isDigit m'"
    using m(1) zero by (simp add: m'_def list_all_iff)
  have m'2: "decimalValue m' = n"
    using m(3) by (simp add: m'_def decimalValue_zeros)
  have m'3: "3 < length m'"
    by (simp add: m'_def)
  have "m' \<noteq> []"
    using m'3 by auto
  then have ip: "list_all isDigit ip" "ip \<noteq> []"
    using m'1 m'3 by (simp_all add: ip_def list_all_take_drop)
  have fp: "list_all isDigit fp" "length fp = 3"
    using m'1 m'3 by (simp_all add: fp_def list_all_take_drop)
  then have fp0: "fp \<noteq> []"
    by auto
  have split: "ip @ fp = m'"
    by (simp add: ip_def fp_def)
  have "toFixed (Fin a) 3 = Inr (ip @ ''.'' @ fp)"
    using assms unfolding toFixed_def Let_def ip_def fp_def m'_def m_def n_def
    by simp
  moreover have "StringToNumber (ip @ ''.'' @ fp) = roundToDouble (of_int n / 1000)"
    using StringToNumber_fixed [OF ip fp(1) fp0] by (simp add: split m'2 fp(2))
  ultimately show ?thesis
    by (simp add: n_def)
qed

lemma formatNumber_Fin:
  assumes "0 \<le> a" "a < 10 ^ 21"
  shows "formatNumber (Some (Fin a))
     = Inr (toString (roundToDouble (of_int (fixedInteger a 3) / 1000)))"
  using toFixed_3_value [OF assms] by (auto simp add: formatNumber_def)

lemma displayed_values:
  assumes "isValidDimension d" "tolerance d g = Some t"
  shows "\<exists>tv lo up. t = Fin tv \<and> lowerLimit d (Some t) = Some (Fin lo)
     \<and> upperLimit d (Some t) = Some (Fin up)
     \<and> 0 \<le> tv \<and> tv < 10 ^ 21 \<and> 0 \<le> lo \<and> lo < 10 ^ 21 \<and> 0 \<le> up \<and> up < 10 ^ 21"
proof -
  from assms(1) obtain x where d: "d = Fin x" and x: "1 / 2 \<le> x" "x \<le> 4000"
    by (auto simp: isValidDimension_iff)
  from tolerance_bounds [OF x] assms(2) obtain tv
    where t: "t = Fin tv" and tv: "1 / 32 \<le> tv" "tv \<le> 8" "tv \<le> x - 1 / 4"
    unfolding d by blast
  have "1 / 4 \<le> x + tv" "x + tv \<le> 8192" "1 / 4 \<le> x - tv" "x - tv \<le> 8192"
    using x tv by linarith+
  then obtain up lo where up: "roundToDouble (x + tv) = Fin up" "\<bar>up - (x + tv)\<bar> \<le> 1 / 2 ^ 40"
    and lo: "roundToDouble (x - tv) = Fin lo" "\<bar>lo - (x - tv)\<bar> \<le> 1 / 2 ^ 40"
    using roundToDouble_near by meson
  have small: "(1::rat) / 2 ^ 40 < 1 / 32"
    by simp
  have big: "(4010::rat) < 10 ^ 21"
    by simp
  have "0 \<le> lo" "lo < 10 ^ 21" "0 \<le> up" "up < 10 ^ 21" "0 \<le> tv" "tv < 10 ^ 21"
    using up(2) lo(2) small big x tv by linarith+
  moreover have "lowerLimit d (Some t) = Some (Fin lo)" "upperLimit d (Some t) = Some (Fin up)"
    using up(1) lo(1) by (simp_all add: lowerLimit_def upperLimit_def d t sub_def)
  ultimately show ?thesis
    using t by blast
qed

text \<open>
  C6. For every dimension \<open>d\<close> and specified tolerance \<open>t\<close>, the upper limit is \<open>d + t\<close> and the
  lower limit is \<open>d - t\<close> in the arithmetic of the number type: for finite \<open>x\<close> and \<open>t\<close> they
  are the doubles nearest to the exact sum \<open>x + t\<close> and to the exact difference \<open>x - t\<close>, with
  no rounding to decimal digits at this stage. For the dimension 2.7 and the tolerance 0.2 the
  upper limit is the double 2.9000000000000004 and not the double 2.9, and the lower limit
  is 2.5; for the dimension 10 and the tolerance 0.2 the lower limit is the double 9.8. When
  the tolerance is not specified, both limits are not specified either, and no zero is
  substituted.
\<close>

theorem limits_are_sum_and_difference:
  "upperLimit (Fin x) (Some (Fin t)) = Some (roundToDouble (x + t))
   \<and> lowerLimit (Fin x) (Some (Fin t)) = Some (roundToDouble (x - t))
   \<and> upperLimit d (Some u) = Some (add d u) \<and> lowerLimit d (Some u) = Some (sub d u)
   \<and> upperLimit d None = None \<and> lowerLimit d None = None
   \<and> upperLimit (lit (27 / 10)) (Some (lit (2 / 10)))
        = Some (Fin (6530219459687220 / 2251799813685248))
   \<and> Fin (6530219459687220 / 2251799813685248) \<noteq> lit (29 / 10)
   \<and> lowerLimit (lit (27 / 10)) (Some (lit (2 / 10))) = Some (lit (25 / 10))
   \<and> lit (25 / 10) = Fin (5 / 2)
   \<and> lowerLimit (lit 10) (Some (lit (2 / 10))) = Some (lit (98 / 10))"
proof -
  have a: "upperLimit (Fin x) (Some (Fin t)) = Some (roundToDouble (x + t))"
    "lowerLimit (Fin x) (Some (Fin t)) = Some (roundToDouble (x - t))"
    by (simp_all add: upperLimit_def lowerLimit_def sub_def)
  have b: "upperLimit d (Some u) = Some (add d u)" "lowerLimit d (Some u) = Some (sub d u)"
    "upperLimit d None = None" "lowerLimit d None = None"
    by (simp_all add: upperLimit_def lowerLimit_def)
  have c: "upperLimit (lit (27 / 10)) (Some (lit (2 / 10)))
        = Some (Fin (6530219459687220 / 2251799813685248))"
    "Fin (6530219459687220 / 2251799813685248) \<noteq> lit (29 / 10)"
    "lowerLimit (lit (27 / 10)) (Some (lit (2 / 10))) = Some (lit (25 / 10))"
    "lit (25 / 10) = Fin (5 / 2)"
    "lowerLimit (lit 10) (Some (lit (2 / 10))) = Some (lit (98 / 10))"
    by (simp_all add: upperLimit_def lowerLimit_def sum_samples lit_tolerances lit_samples
        del: add.simps)
  show ?thesis
    by (intro conjI a b c)
qed

text \<open>
  C9. Each displayed value (tolerance, upper limit, lower limit) is rounded to 3 decimal
  digits and then renormalized: the value \<open>a\<close> is replaced by the multiple \<open>n / 1000\<close> nearest
  to it (\<^verbatim>\<open>toFixed(3)\<close>), the resulting text is read back as a number and that number is
  printed with the fewest digits that identify it, which strips the artifacts of binary
  floating point. In particular the limit 2.9000000000000004, which is the upper limit
  computed for the dimension 2.7 with grade coarse, is displayed as \<^verbatim>\<open>2.9\<close>.
\<close>

theorem displayed_values_rounded_to_3_digits:
  "(tolerance (parseFloat s) g = Some t \<longrightarrow>
      (\<exists>tv lo up.
          t = Fin tv
          \<and> lowerLimit (parseFloat s) (Some t) = Some (Fin lo)
          \<and> upperLimit (parseFloat s) (Some t) = Some (Fin up)
          \<and> App s g = Inr (Results
                (toString (roundToDouble (of_int (fixedInteger tv 3) / 1000)))
                (toString (roundToDouble (of_int (fixedInteger up 3) / 1000)))
                (toString (roundToDouble (of_int (fixedInteger lo 3) / 1000))))))
   \<and> (\<forall>m. \<bar>of_int (fixedInteger a 3) / 1000 - a\<bar> \<le> \<bar>of_int m / 1000 - a\<bar>)
   \<and> upperLimit (lit (27 / 10)) (tolerance (lit (27 / 10)) Class_c)
        = Some (Fin (6530219459687220 / 2251799813685248))
   \<and> toString (Fin (6530219459687220 / 2251799813685248)) = ''2.9000000000000004''
   \<and> formatNumber (Some (Fin (6530219459687220 / 2251799813685248))) = Inr ''2.9''"
proof -
  have shown: "\<exists>tv lo up.
          t = Fin tv
          \<and> lowerLimit (parseFloat s) (Some t) = Some (Fin lo)
          \<and> upperLimit (parseFloat s) (Some t) = Some (Fin up)
          \<and> App s g = Inr (Results
                (toString (roundToDouble (of_int (fixedInteger tv 3) / 1000)))
                (toString (roundToDouble (of_int (fixedInteger up 3) / 1000)))
                (toString (roundToDouble (of_int (fixedInteger lo 3) / 1000))))"
    if tol: "tolerance (parseFloat s) g = Some t"
  proof -
    have valid: "isValidDimension (parseFloat s)"
      using tol tolerance_invalid [of "parseFloat s" g] by auto
    from displayed_values [OF valid tol] obtain tv lo up
      where v: "t = Fin tv" "lowerLimit (parseFloat s) (Some t) = Some (Fin lo)"
        "upperLimit (parseFloat s) (Some t) = Some (Fin up)"
        and b: "0 \<le> tv" "tv < 10 ^ 21" "0 \<le> lo" "lo < 10 ^ 21" "0 \<le> up" "up < 10 ^ 21"
      by blast
    from App_Results [OF tol] obtain a b c
      where r: "App s g = Inr (Results a b c)" "formatNumber (Some t) = Inr a"
        "formatNumber (upperLimit (parseFloat s) (Some t)) = Inr b"
        "formatNumber (lowerLimit (parseFloat s) (Some t)) = Inr c"
      by blast
    have "a = toString (roundToDouble (of_int (fixedInteger tv 3) / 1000))"
      using r(2) formatNumber_Fin [OF b(1,2)] by (simp add: v(1))
    moreover have "b = toString (roundToDouble (of_int (fixedInteger up 3) / 1000))"
      using r(3) formatNumber_Fin [OF b(5,6)] by (simp add: v(3))
    moreover have "c = toString (roundToDouble (of_int (fixedInteger lo 3) / 1000))"
      using r(4) formatNumber_Fin [OF b(3,4)] by (simp add: v(2))
    ultimately show ?thesis
      using v r(1) by blast
  qed
  have t: "tolerance (Fin (3039929748475085 / 1125899906842624)) Class_c
      = Some (Fin (3602879701896397 / 18014398509481984))"
    by (simp add: tolerance_Fin nth_tolerances tolerances_table lit_tolerances)
  have "upperLimit (lit (27 / 10)) (tolerance (lit (27 / 10)) Class_c)
        = Some (Fin (6530219459687220 / 2251799813685248))"
    by (simp add: t upperLimit_def sum_samples del: add.simps)
  with shown fixedInteger_nearest [of a] toString_sample formatNumber_samples(1)
  show ?thesis
    by blast
qed

theorem displayed_values_rounded_to_3_digits_witness:
  "tolerance (parseFloat ''10'') Class_m = Some (lit (2 / 10))
   \<and> (\<exists>tv lo up.
          lit (2 / 10) = Fin tv
          \<and> lowerLimit (parseFloat ''10'') (Some (lit (2 / 10))) = Some (Fin lo)
          \<and> upperLimit (parseFloat ''10'') (Some (lit (2 / 10))) = Some (Fin up)
          \<and> App ''10'' Class_m = Inr (Results
                (toString (roundToDouble (of_int (fixedInteger tv 3) / 1000)))
                (toString (roundToDouble (of_int (fixedInteger up 3) / 1000)))
                (toString (roundToDouble (of_int (fixedInteger lo 3) / 1000)))))"
proof -
  have t: "tolerance (parseFloat ''10'') Class_m = Some (lit (2 / 10))"
    by (simp add: parseFloat_samples tolerance_Fin nth_tolerances tolerances_table)
  from displayed_values_rounded_to_3_digits [of "''10''" Class_m "lit (2 / 10)"] t
  show ?thesis
    by blast
qed

section \<open>Text after the numeric prefix\<close>

text \<open>
  \<^verbatim>\<open>parseFloat\<close> converts the longest prefix that is a decimal literal. A string that is a
  literal as a whole stays the converted prefix when text is appended that starts with a
  character which cannot continue a literal: one that is not a digit, a point or an
  exponent mark.
\<close>

lemma dropWhile_digits_Nil:
  assumes "dropWhile isDigit u = []"
  shows "list_all isDigit u"
  using assms by (induction u) (simp_all split: if_splits)

lemma digits_then_text:
  assumes "dropWhile isDigit u = []" "\<not> isDigit c"
  shows "takeWhile isDigit (u @ c # rest) = u" "dropWhile isDigit (u @ c # rest) = c # rest"
    "takeWhile isDigit u = u"
  using assms dropWhile_digits_Nil [of u]
  by (simp_all add: takeWhile_digits takeWhile_all_digits)

lemma exponentPart_append:
  assumes "exponentPart r = (ex, [])" "r \<noteq> []" "\<not> isDigit c"
  shows "exponentPart (r @ c # rest) = (ex, c # rest)"
proof -
  obtain ch t where r: "r = ch # t"
    using assms(2) by (cases r) auto
  have e: "ch = CHR ''e'' \<or> ch = CHR ''E''"
    using assms(1) r by (auto simp add: exponentPart_def split: if_splits)
  show ?thesis
  proof (cases t)
    case Nil
    with assms(1) r e show ?thesis
      by (auto simp add: exponentPart_def)
  next
    case (Cons sg t')
    consider (minus) "sg = CHR ''-''" | (plus) "sg = CHR ''+''"
      | (none) "sg \<noteq> CHR ''-''" "sg \<noteq> CHR ''+''"
      by blast
    then show ?thesis
    proof cases
      case minus
      with assms(1) r e Cons have d: "dropWhile isDigit t' = []" "t' \<noteq> []"
        and v: "ex = - decimalValue (takeWhile isDigit t')"
        by (auto simp add: exponentPart_def Let_def split: if_splits)
      from d(2) show ?thesis
        using r e Cons minus v digits_then_text [OF d(1) assms(3)]
        by (auto simp add: exponentPart_def Let_def)
    next
      case plus
      with assms(1) r e Cons have d: "dropWhile isDigit t' = []" "t' \<noteq> []"
        and v: "ex = decimalValue (takeWhile isDigit t')"
        by (auto simp add: exponentPart_def Let_def split: if_splits)
      from d(2) show ?thesis
        using r e Cons plus v digits_then_text [OF d(1) assms(3)]
        by (auto simp add: exponentPart_def Let_def)
    next
      case none
      with assms(1) r e Cons have d: "dropWhile isDigit t = []" "t \<noteq> []"
        and v: "ex = decimalValue (takeWhile isDigit t)"
        by (auto simp add: exponentPart_def Let_def split: if_splits)
      have tw: "takeWhile isDigit (t @ c # rest) = t" "dropWhile isDigit (t @ c # rest) = c # rest"
        "takeWhile isDigit t = t"
        by (rule digits_then_text [OF d(1) assms(3)])+
      have v': "ex = decimalValue t"
        using v tw(3) by simp
      have sgn: "(case t @ c # rest of [] \<Rightarrow> (False, t @ c # rest)
                  | sg # t' \<Rightarrow> if sg = CHR ''-'' then (True, t')
                              else if sg = CHR ''+'' then (False, t')
                              else (False, t @ c # rest)) = (False, t @ c # rest)"
        using Cons none by simp
      have "exponentPart (ch # t @ c # rest) = (ex, c # rest)"
        using e d(2) by (auto simp add: exponentPart_def sgn tw v')
      with r show ?thesis by simp
    qed
  qed
qed

lemma exponentPart_append_gen:
  assumes "exponentPart r = (ex, [])" "\<not> isDigit c" "c \<noteq> CHR ''e''" "c \<noteq> CHR ''E''"
  shows "exponentPart (r @ c # rest) = (ex, c # rest)"
proof (cases r)
  case Nil
  with assms show ?thesis
    by (simp add: exponentPart_def)
next
  case (Cons a as)
  with assms exponentPart_append [of r ex c rest] show ?thesis
    by simp
qed

lemma split_digits:
  assumes "\<not> isDigit c"
  shows "takeWhile isDigit (q @ c # rest) = takeWhile isDigit q"
    "dropWhile isDigit (q @ c # rest) = dropWhile isDigit q @ c # rest"
  using assms by (induction q) simp_all

lemma strUnsignedDecimalLiteral_append:
  assumes "strUnsignedDecimalLiteral u = Some (mv, [])"
    and "\<not> isDigit c" "c \<noteq> CHR ''.''" "c \<noteq> CHR ''e''" "c \<noteq> CHR ''E''"
  shows "strUnsignedDecimalLiteral (u @ c # rest) = Some (mv, c # rest)"
proof (cases "dropWhile isDigit u \<noteq> [] \<and> hd (dropWhile isDigit u) = CHR ''.''")
  case True
  then obtain q where q: "dropWhile isDigit u = CHR ''.'' # q"
    by (cases "dropWhile isDigit u") auto
  from assms(1) obtain ex where ex: "exponentPart (dropWhile isDigit q) = (ex, [])"
    and mv: "mv = of_int (decimalValue (takeWhile isDigit u @ takeWhile isDigit q))
                    / 10 ^ length (takeWhile isDigit q) * pow10 ex"
    and ne: "\<not> (takeWhile isDigit u = [] \<and> takeWhile isDigit q = [])"
    by (auto simp add: strUnsignedDecimalLiteral_def Let_def q split: if_splits prod.splits)
  have "exponentPart (dropWhile isDigit q @ c # rest) = (ex, c # rest)"
    using ex assms(2,4,5) by (rule exponentPart_append_gen)
  with ne show ?thesis
    by (simp add: strUnsignedDecimalLiteral_def Let_def split_digits [OF assms(2)] q mv)
next
  case False
  from assms(1) False obtain ex where ex: "exponentPart (dropWhile isDigit u) = (ex, [])"
    and mv: "mv = of_int (decimalValue (takeWhile isDigit u)) * pow10 ex"
    and ne: "takeWhile isDigit u \<noteq> []"
    by (auto simp add: strUnsignedDecimalLiteral_def Let_def split: if_splits prod.splits)
  have e: "exponentPart (dropWhile isDigit u @ c # rest) = (ex, c # rest)"
    using ex assms(2,4,5) by (rule exponentPart_append_gen)
  have nd: "\<not> (dropWhile isDigit u @ c # rest \<noteq> []
              \<and> hd (dropWhile isDigit u @ c # rest) = CHR ''.'')"
    using False assms(3) by (auto simp add: hd_append)
  have "strUnsignedDecimalLiteral (u @ c # rest)
        = (let ip = takeWhile isDigit u;
               r1 = dropWhile isDigit u @ c # rest;
               hasDot = (r1 \<noteq> [] \<and> hd r1 = CHR ''.'');
               fp = (if hasDot then takeWhile isDigit (tl r1) else []);
               r2 = (if hasDot then dropWhile isDigit (tl r1) else r1)
           in if ip = [] \<and> fp = [] then None
              else (let (ex, r3) = exponentPart r2
                    in Some (of_int (decimalValue (ip @ fp)) / 10 ^ length fp * pow10 ex, r3)))"
    by (simp only: strUnsignedDecimalLiteral_def split_digits [OF assms(2)])
  also have "\<dots> = Some (mv, c # rest)"
    unfolding Let_def using nd ne by (simp add: e mv)
  finally show ?thesis .
qed

lemma strUnsignedDecimalLiteral_first:
  assumes "strUnsignedDecimalLiteral u = Some r"
  shows "u \<noteq> [] \<and> (isDigit (hd u) \<or> hd u = CHR ''.'')"
  using assms by (cases u) (auto simp add: strUnsignedDecimalLiteral_def Let_def split: if_splits)

lemma unsigned_or_Infinity_append:
  assumes "(if take 8 u = ''Infinity''
            then Some (if neg then NegInfinity else PosInfinity, drop 8 u)
            else (case strUnsignedDecimalLiteral u of
                    None \<Rightarrow> None
                  | Some (mv, rest) \<Rightarrow> Some (roundToDouble (if neg then - mv else mv), rest)))
           = Some (n, [])"
    and "\<not> isDigit c" "c \<noteq> CHR ''.''" "c \<noteq> CHR ''e''" "c \<noteq> CHR ''E''"
  shows "(if take 8 (u @ c # rest) = ''Infinity''
          then Some (if neg then NegInfinity else PosInfinity, drop 8 (u @ c # rest))
          else (case strUnsignedDecimalLiteral (u @ c # rest) of
                  None \<Rightarrow> None
                | Some (mv, rest) \<Rightarrow> Some (roundToDouble (if neg then - mv else mv), rest)))
         = Some (n, c # rest)"
proof (cases "take 8 u = ''Infinity''")
  case True
  with assms(1) have "drop 8 u = []" and n: "n = (if neg then NegInfinity else PosInfinity)"
    by auto
  with True have "u = ''Infinity''"
    using append_take_drop_id [of 8 u] by simp
  with n show ?thesis
    by simp
next
  case False
  with assms(1) obtain mv where mv: "strUnsignedDecimalLiteral u = Some (mv, [])"
    and n: "n = roundToDouble (if neg then - mv else mv)"
    by (auto split: option.splits)
  from strUnsignedDecimalLiteral_first [OF mv] obtain a as where u: "u = a # as"
    and a: "isDigit a \<or> a = CHR ''.''"
    by (cases u) auto
  from a have "a \<noteq> CHR ''I''"
    by (auto simp add: isDigit_iff)
  then have "take 8 (u @ c # rest) \<noteq> ''Infinity''"
    by (simp add: u)
  then show ?thesis
    using strUnsignedDecimalLiteral_append [OF mv assms(2-5), of rest] n by simp
qed

lemma strDecimalLiteral_append:
  assumes "strDecimalLiteral pre = Some (n, [])"
    and "\<not> isDigit c" "c \<noteq> CHR ''.''" "c \<noteq> CHR ''e''" "c \<noteq> CHR ''E''"
  shows "strDecimalLiteral (pre @ c # rest) = Some (n, c # rest)"
proof (cases pre)
  case Nil
  with assms(1) show ?thesis
    by (simp add: strDecimalLiteral_def strUnsignedDecimalLiteral_def)
next
  case (Cons sg t)
  consider (minus) "sg = CHR ''-''" | (plus) "sg = CHR ''+''"
    | (none) "sg \<noteq> CHR ''-''" "sg \<noteq> CHR ''+''"
    by blast
  then show ?thesis
  proof cases
    case minus
    with assms(1) Cons show ?thesis
      using unsigned_or_Infinity_append [of t True n c rest, OF _ assms(2-5)]
      by (simp add: strDecimalLiteral_def)
  next
    case plus
    with assms(1) Cons show ?thesis
      using unsigned_or_Infinity_append [of t False n c rest, OF _ assms(2-5)]
      by (simp add: strDecimalLiteral_def)
  next
    case none
    have sgn: "(case pre of [] \<Rightarrow> (False, pre)
                | sg # t \<Rightarrow> if sg = CHR ''-'' then (True, t)
                          else if sg = CHR ''+'' then (False, t)
                          else (False, pre)) = (False, pre)"
      using Cons none by simp
    have sgn': "(case pre @ c # rest of [] \<Rightarrow> (False, pre @ c # rest)
                 | sg # t \<Rightarrow> if sg = CHR ''-'' then (True, t)
                           else if sg = CHR ''+'' then (False, t)
                           else (False, pre @ c # rest)) = (False, pre @ c # rest)"
      using Cons none by simp
    from assms(1) have b: "(if take 8 pre = ''Infinity''
            then Some (if False then NegInfinity else PosInfinity, drop 8 pre)
            else (case strUnsignedDecimalLiteral pre of
                    None \<Rightarrow> None
                  | Some (mv, rest) \<Rightarrow> Some (roundToDouble (if False then - mv else mv), rest)))
           = Some (n, [])"
      unfolding strDecimalLiteral_def sgn Let_def prod.case .
    show ?thesis
      unfolding strDecimalLiteral_def sgn' Let_def prod.case
      by (rule unsigned_or_Infinity_append [OF b assms(2-5)])
  qed
qed

lemma strDecimalLiteral_first:
  assumes "strDecimalLiteral pre = Some r"
  shows "pre \<noteq> [] \<and> \<not> isWhiteSpace (hd pre)"
proof (cases pre)
  case Nil
  with assms show ?thesis
    by (simp add: strDecimalLiteral_def strUnsignedDecimalLiteral_def)
next
  case (Cons a as)
  have "\<not> isWhiteSpace a"
  proof
    assume w: "isWhiteSpace a"
    then have s: "a \<noteq> CHR ''-''" "a \<noteq> CHR ''+''" "a \<noteq> CHR ''I''" "a \<noteq> CHR ''.''" "\<not> isDigit a"
      using digit_not_space [of a] by (auto simp add: isWhiteSpace_def)
    then have "strUnsignedDecimalLiteral (a # as) = None"
      by (simp add: strUnsignedDecimalLiteral_def)
    with s assms Cons show False
      by (simp add: strDecimalLiteral_def)
  qed
  with Cons show ?thesis
    by simp
qed

lemma parseFloat_append:
  assumes "strDecimalLiteral pre = Some (n, [])"
    and "\<not> isDigit c" "c \<noteq> CHR ''.''" "c \<noteq> CHR ''e''" "c \<noteq> CHR ''E''"
  shows "parseFloat (pre @ c # rest) = n" "parseFloat pre = n"
proof -
  from strDecimalLiteral_first [OF assms(1)] obtain a as where p: "pre = a # as"
    and a: "\<not> isWhiteSpace a"
    by (cases pre) auto
  from p a have d: "dropWhile isWhiteSpace (pre @ c # rest) = pre @ c # rest"
    "dropWhile isWhiteSpace pre = pre"
    by simp_all
  show "parseFloat (pre @ c # rest) = n"
    unfolding parseFloat_def d(1) by (simp add: strDecimalLiteral_append [OF assms])
  show "parseFloat pre = n"
    unfolding parseFloat_def d(2) by (simp add: assms(1))
qed

lemma strDecimalLiteral_digits:
  assumes "list_all isDigit ip" "ip \<noteq> []"
  shows "strDecimalLiteral ip = Some (roundToDouble (of_int (decimalValue ip)), [])"
proof -
  obtain c cs where ip: "ip = c # cs"
    using assms(2) by (cases ip) auto
  with assms(1) have c: "isDigit c"
    by simp
  then have s: "c \<noteq> CHR ''-''" "c \<noteq> CHR ''+''" "c \<noteq> CHR ''I''"
    by (auto simp add: isDigit_iff)
  have "strUnsignedDecimalLiteral ip = Some (of_int (decimalValue ip), [])"
    using assms
    by (simp add: strUnsignedDecimalLiteral_def Let_def takeWhile_all_digits exponentPart_def
        pow10_def)
  with s show ?thesis
    by (simp add: strDecimalLiteral_def ip)
qed

text \<open>
  C10. Validation through \<^verbatim>\<open>parseFloat\<close> accepts any string whose numeric prefix parses and
  ignores the characters after it: when \<open>pre\<close> is a decimal literal as a whole and the text
  after it starts with a character that cannot continue a literal, \<^verbatim>\<open>parseFloat\<close> of the longer
  string is the number of \<open>pre\<close>, so validation and the rendered output are those of \<open>pre\<close>;
  for a run of digits that number is the double nearest to its decimal value. For the input
  \<^verbatim>\<open>10abc\<close> validation succeeds and the dimension is treated as 10, rather than being
  rejected as unparseable (as the conversion \<^verbatim>\<open>Number\<close> of the whole string would).
\<close>

theorem parseFloat_ignores_trailing_text:
  "(strDecimalLiteral pre = Some (n, [])
      \<and> \<not> isDigit c \<and> c \<noteq> CHR ''.'' \<and> c \<noteq> CHR ''e'' \<and> c \<noteq> CHR ''E''
    \<longrightarrow> parseFloat (pre @ c # rest) = n \<and> parseFloat pre = n
        \<and> isValidDimension (parseFloat (pre @ c # rest)) = isValidDimension (parseFloat pre)
        \<and> App (pre @ c # rest) g = App pre g)
   \<and> (ip \<noteq> [] \<and> list_all isDigit ip
      \<and> \<not> isDigit c \<and> c \<noteq> CHR ''.'' \<and> c \<noteq> CHR ''e'' \<and> c \<noteq> CHR ''E''
    \<longrightarrow> parseFloat (ip @ c # rest) = roundToDouble (of_int (decimalValue ip))
        \<and> parseFloat ip = roundToDouble (of_int (decimalValue ip)))
   \<and> parseFloat ''10abc'' = lit 10
   \<and> strDecimalLiteral ''10abc'' = Some (lit 10, ''abc'')
   \<and> isValidDimension (parseFloat ''10abc'')
   \<and> App ''10abc'' g = App ''10'' g
   \<and> StringToNumber ''10abc'' = NaN"
proof -
  have a: "parseFloat (pre @ c # rest) = n \<and> parseFloat pre = n
        \<and> isValidDimension (parseFloat (pre @ c # rest)) = isValidDimension (parseFloat pre)
        \<and> App (pre @ c # rest) g = App pre g"
    if "strDecimalLiteral pre = Some (n, [])" "\<not> isDigit c" "c \<noteq> CHR ''.''" "c \<noteq> CHR ''e''"
      "c \<noteq> CHR ''E''" for pre n
    using parseFloat_append [OF that] by (simp add: App_def)
  have b: "parseFloat (ip @ c # rest) = roundToDouble (of_int (decimalValue ip))
        \<and> parseFloat ip = roundToDouble (of_int (decimalValue ip))"
    if "ip \<noteq> []" "list_all isDigit ip" "\<not> isDigit c" "c \<noteq> CHR ''.''" "c \<noteq> CHR ''e''"
      "c \<noteq> CHR ''E''"
    using a [OF strDecimalLiteral_digits [OF that(2,1)] that(3-6)] by simp
  have s: "parseFloat ''10abc'' = lit 10
      \<and> strDecimalLiteral ''10abc'' = Some (lit 10, ''abc'')
      \<and> isValidDimension (parseFloat ''10abc'')
      \<and> App ''10abc'' g = App ''10'' g
      \<and> StringToNumber ''10abc'' = NaN"
    by (simp add: parseFloat_samples strDecimalLiteral_10abc StringToNumber_10abc lit_samples
        isValidDimension_Fin App_def)
  from a b s show ?thesis
    by blast
qed

theorem parseFloat_ignores_trailing_text_witness:
  "strDecimalLiteral ''10'' = Some (lit 10, [])
   \<and> ''10'' \<noteq> [] \<and> list_all isDigit ''10'' \<and> \<not> isDigit (CHR ''a'')
   \<and> CHR ''a'' \<noteq> CHR ''.'' \<and> CHR ''a'' \<noteq> CHR ''e'' \<and> CHR ''a'' \<noteq> CHR ''E''
   \<and> parseFloat (''10'' @ CHR ''a'' # ''bc'') = lit 10 \<and> parseFloat ''10'' = lit 10
   \<and> isValidDimension (parseFloat (''10'' @ CHR ''a'' # ''bc''))
   \<and> App (''10'' @ CHR ''a'' # ''bc'') Class_m = App ''10'' Class_m"
proof -
  have h: "strDecimalLiteral ''10'' = Some (lit 10, [])"
    by (simp add: strDecimalLiteral_10 lit_samples)
  have d: "list_all isDigit ''10''" "\<not> isDigit (CHR ''a'')" "''10'' \<noteq> []"
    "CHR ''a'' \<noteq> CHR ''.''" "CHR ''a'' \<noteq> CHR ''e''" "CHR ''a'' \<noteq> CHR ''E''"
    by (simp_all add: isDigit_def)
  have v: "isValidDimension (lit 10)"
    by (simp add: lit_samples isValidDimension_Fin)
  from parseFloat_ignores_trailing_text [of "''10''" "lit 10" "CHR ''a''" "''bc''" Class_m "''10''"]
    h d v
  show ?thesis
    by simp
qed

end
